theory Spec2Isabelle
  imports Complex_Main "HOL-Library.Log_Nat"
begin

section \<open>Data model (types.ts)\<close>

datatype UserRole = Student | Teacher | Parent

record User =
  user_id :: string
  user_name :: string
  user_email :: string
  user_role :: UserRole
  password :: "string option"
  mobile :: "string option"
  registeredPhotoUrl :: string
  childId :: "string option"
  enableScanOnLogin :: "bool option"

datatype AttendanceStatus = Present | Absent | Late

record AttendanceRecord =
  rec_date :: string
  rec_subject :: string
  rec_teacherName :: string
  rec_timestamp :: string
  rec_status :: AttendanceStatus

record DailyPlanItem =
  day :: string
  focus_topic :: string
  learning_activity :: string
  practice_task :: string
  estimated_time :: string

record LearningPath =
  overall_summary :: string
  daily_plan :: "DailyPlanItem list"

datatype AssignmentStatus = Graded | Submitted | AssignmentPending | AssignmentLate

record Assignment =
  assignment_id :: string
  assignment_title :: string
  dueDate :: string
  submittedDate :: "string option"
  assignment_status :: AssignmentStatus
  assignment_score :: "rat option"
  maxScore :: rat

record SubjectProgress =
  subjectName :: string
  overallGrade :: string
  teacherFeedback :: string
  assignments :: "Assignment list"

datatype EngagementStatus = Engaged | Neutral | Disengaged | Unknown

datatype BehaviourStatus = Good | NeedsImprovement

datatype BlockReason = LowAttendance | BehaviourIssue | AttendanceAndBehaviour

record Student =
  student_id :: string
  student_name :: string
  rollNumber :: string
  department :: string
  attendance :: "AttendanceRecord list"
  learningPath :: "LearningPath option"
  isAccessBlocked :: bool
  behaviourStatus :: BehaviourStatus
  blockReason :: "BlockReason option"
  progress :: "SubjectProgress list"
  temporaryAccessExpires :: "nat option"
  engagementStatus :: "EngagementStatus option"

datatype LeaveStatus = Pending | Approved | Rejected

record LeaveApplication =
  leave_id :: string
  leave_studentId :: string
  leave_studentName :: string
  studentRollNumber :: string
  startDate :: string
  endDate :: string
  reason :: string
  documentUrl :: "string option"
  leave_status :: LeaveStatus
  teacherComment :: "string option"
  applicationDate :: string

record Question =
  question_id :: string
  question_text :: string
  options :: "string list"
  correctAnswer :: string

text \<open>
  \<open>questions\<close> is declared \<open>Question[]\<close>; the value read back from the persistent store
  may fail \<open>Array.isArray\<close>, which \<open>handleSubmitExam\<close> checks. \<open>None\<close> stands for such a
  value.
\<close>

record Exam =
  exam_id :: string
  exam_title :: string
  exam_subject :: string
  durationMinutes :: nat
  createdBy :: string
  questions :: "Question list option"

datatype SubmissionStatus = Completed | Blocked

record ExamSubmission =
  submission_id :: string
  examId :: string
  submission_studentId :: string
  submission_studentName :: string
  answers :: "string \<rightharpoonup> string"
  submittedAt :: nat
  score :: int
  submission_status :: SubmissionStatus

text \<open>The argument of \<open>handleSubmitExam\<close>: an \<open>ExamSubmission\<close> without id, score, studentName.\<close>

record SubmissionInput =
  in_examId :: string
  in_studentId :: string
  in_answers :: "string \<rightharpoonup> string"
  in_submittedAt :: nat
  in_status :: SubmissionStatus

text \<open>The argument of \<open>handleSignup\<close>.\<close>

record SignupDetails =
  details_name :: string
  details_email :: string
  details_role :: UserRole
  details_password :: string
  details_childEmail :: "string option"
  details_registeredPhotoUrl :: string

section \<open>Application state (the hooks of App.tsx)\<close>

record AppState =
  currentUser :: "User option"
  users :: "User list"
  students :: "Student list"
  leaveApplications :: "LeaveApplication list"
  exams :: "Exam list"
  examSubmissions :: "ExamSubmission list"
  isLoginView :: bool
  authError :: "string option"

section \<open>Array helpers\<close>

text \<open>\<open>Array.prototype.findIndex\<close>: the first index whose element satisfies the predicate;
  \<open>None\<close> is the source's \<open>-1\<close>.\<close>

fun findIndex :: "('a \<Rightarrow> bool) \<Rightarrow> 'a list \<Rightarrow> nat option" where
  "findIndex P [] = None"
| "findIndex P (x # xs) =
     (if P x then Some 0 else (case findIndex P xs of None \<Rightarrow> None | Some i \<Rightarrow> Some (Suc i)))"

text \<open>\<open>Array.prototype.some\<close>.\<close>

definition some :: "('a \<Rightarrow> bool) \<Rightarrow> 'a list \<Rightarrow> bool" where
  "some P xs = list_ex P xs"

section \<open>JavaScript numbers\<close>

text \<open>
  A finite \<open>number\<close> is the rational it denotes. \<open>/\<close> and \<open>*\<close> yield the exact result
  rounded to the nearest binary64 value, ties to even: the result is scaled so that its
  significand lies in \<open>[2^52, 2^53)\<close>, rounded to an integer and scaled back. The exponent
  range of binary64 is not modelled (no overflow to \<open>Infinity\<close>, no subnormals); the
  quotients and products this program computes lie between \<open>2^-32\<close> and \<open>100\<close>.
\<close>

text \<open>\<open>ilog2 x\<close> is \<open>\<lfloor>log\<^sub>2 x\<rfloor>\<close> for \<open>x > 0\<close>.\<close>

definition ilog2 :: "rat \<Rightarrow> int" where
  "ilog2 x = (let (a, b) = quotient_of x; k = bitlen a - bitlen b
              in if 2 powi k \<le> x then k else k - 1)"

definition roundTiesToEven :: "rat \<Rightarrow> int" where
  "roundTiesToEven y = (let f = \<lfloor>y\<rfloor>; r = y - of_int f in
      if r < 1/2 then f else if 1/2 < r then f + 1 else if even f then f else f + 1)"

definition roundDouble :: "rat \<Rightarrow> rat" where
  "roundDouble x = (if x = 0 then 0 else
      let e = ilog2 \<bar>x\<bar> - 52 in of_int (roundTiesToEven (x / 2 powi e)) * 2 powi e)"

text \<open>The call sites guard the divisor (\<open>totalClasses > 0\<close>, \<open>questions.length > 0\<close>).\<close>

definition js_div :: "rat \<Rightarrow> rat \<Rightarrow> rat" where
  "js_div x y = roundDouble (x / y)"

definition js_mul :: "rat \<Rightarrow> rat \<Rightarrow> rat" where
  "js_mul x y = roundDouble (x * y)"

text \<open>\<open>Math.round\<close>: the nearest integer, a tie going up.\<close>

definition Math_round :: "rat \<Rightarrow> int" where
  "Math_round x = \<lfloor>x + 1/2\<rfloor>"

section \<open>Decimal strings\<close>

definition digit_char :: "nat \<Rightarrow> char" where
  "digit_char n = ''0123456789'' ! (n mod 10)"

fun string_of_nat :: "nat \<Rightarrow> string" where
  "string_of_nat n =
     (if n < 10 then [digit_char n] else string_of_nat (n div 10) @ [digit_char (n mod 10)])"

declare string_of_nat.simps [simp del]

text \<open>\<open>String.prototype.padStart(k, '0')\<close>.\<close>

definition padStart :: "nat \<Rightarrow> string \<Rightarrow> string" where
  "padStart k s = replicate (k - length s) CHR ''0'' @ s"

definition digit_val :: "char \<Rightarrow> nat option" where
  "digit_val c = findIndex (\<lambda>x. x = c) ''0123456789''"

fun digits_acc :: "nat \<Rightarrow> string \<Rightarrow> nat option" where
  "digits_acc acc [] = Some acc"
| "digits_acc acc (c # cs) =
     (case digit_val c of None \<Rightarrow> None | Some v \<Rightarrow> digits_acc (10 * acc + v) cs)"

text \<open>A field of exactly \<open>k\<close> decimal digits.\<close>

definition parse_digits :: "nat \<Rightarrow> string \<Rightarrow> nat option" where
  "parse_digits k s = (if length s = k then digits_acc 0 s else None)"

section \<open>UTC calendar days (the \<open>Date\<close> values of the leave loop)\<close>

text \<open>
  Every \<open>Date\<close> the leave handler builds is a UTC midnight, so a valid \<open>Date\<close> is its
  calendar day (year, month 1..12, day of month); \<open>Invalid Date\<close> is \<open>None\<close>.
\<close>

type_synonym utc_day = "int \<times> nat \<times> nat"

definition is_leap :: "int \<Rightarrow> bool" where
  "is_leap y = (y mod 4 = 0 \<and> (y mod 100 \<noteq> 0 \<or> y mod 400 = 0))"

definition days_in_month :: "int \<Rightarrow> nat \<Rightarrow> nat" where
  "days_in_month y m =
     (if m = 2 then (if is_leap y then 29 else 28)
      else if m = 4 \<or> m = 6 \<or> m = 9 \<or> m = 11 then 30 else 31)"

fun valid_day :: "utc_day \<Rightarrow> bool" where
  "valid_day (y, m, d) = (1 \<le> m \<and> m \<le> 12 \<and> 1 \<le> d \<and> d \<le> days_in_month y m)"

text \<open>\<open>a <= b\<close> on two valid \<open>Date\<close>s compares their time values, that is, their days.\<close>

fun date_le :: "utc_day \<Rightarrow> utc_day \<Rightarrow> bool" where
  "date_le (y, m, d) (y', m', d') =
     (y < y' \<or> (y = y' \<and> (m < m' \<or> (m = m' \<and> d \<le> d'))))"

text \<open>\<open>d.setUTCDate(d.getUTCDate() + 1)\<close>: the day after, month and year carried.\<close>

fun setUTCDate_next :: "utc_day \<Rightarrow> utc_day" where
  "setUTCDate_next (y, m, d) =
     (if d + 1 \<le> days_in_month y m then (y, m, d + 1)
      else if m < 12 then (y, m + 1, 1)
      else (y + 1, 1, 1))"

text \<open>
  The year field of the ISO format: four digits, or a sign and six digits
  (\<open>-000000\<close> is not a year).
\<close>

definition parseYear :: "string \<Rightarrow> (int \<times> string) option" where
  "parseYear s =
     (case s of
        [] \<Rightarrow> None
      | c # rest \<Rightarrow>
          if c = CHR ''+'' \<or> c = CHR ''-'' then
            (case parse_digits 6 (take 6 rest) of
               None \<Rightarrow> None
             | Some v \<Rightarrow>
                 if c = CHR ''-'' \<and> v = 0 then None
                 else Some (if c = CHR ''-'' then - int v else int v, drop 6 rest))
          else
            (case parse_digits 4 (take 4 s) of
               None \<Rightarrow> None
             | Some v \<Rightarrow> Some (int v, drop 4 s)))"

text \<open>The rest of a date-only form: nothing, \<open>-MM\<close>, or \<open>-MM-DD\<close>.\<close>

fun parseMonthDay :: "string \<Rightarrow> (nat \<times> nat) option" where
  "parseMonthDay [] = Some (1, 1)"
| "parseMonthDay [h, m1, m2] =
     (if h = CHR ''-'' then
        (case parse_digits 2 [m1, m2] of None \<Rightarrow> None | Some m \<Rightarrow> Some (m, 1))
      else None)"
| "parseMonthDay [h, m1, m2, h', d1, d2] =
     (if h = CHR ''-'' \<and> h' = CHR ''-'' then
        (case parse_digits 2 [m1, m2] of
           None \<Rightarrow> None
         | Some m \<Rightarrow> (case parse_digits 2 [d1, d2] of None \<Rightarrow> None | Some d \<Rightarrow> Some (m, d)))
      else None)"
| "parseMonthDay _ = None"

text \<open>
  \<open>new Date(s + 'T00:00:00Z')\<close>. The string is read in the ECMAScript date-time format:
  a date-only form followed by the time the source appends. Month 01..12 and day 01..31
  are accepted; a day past the end of its month carries into the next month (\<open>MakeDay\<close>),
  and a day outside the range of time values (\<open>TimeClip\<close>) is invalid. A string that is
  not in the format is taken to give \<open>Invalid Date\<close>; an engine may accept more.
\<close>

definition newDateUTC :: "string \<Rightarrow> utc_day option" where
  "newDateUTC s =
     (case parseYear s of
        None \<Rightarrow> None
      | Some (y, rest) \<Rightarrow>
          (case parseMonthDay rest of
             None \<Rightarrow> None
           | Some (m, d) \<Rightarrow>
               if 1 \<le> m \<and> m \<le> 12 \<and> 1 \<le> d \<and> d \<le> 31 then
                 (let t = (if d \<le> days_in_month y m then (y, m, d)
                           else (y, m + 1, d - days_in_month y m))
                  in if date_le (-271821, 4, 20) t \<and> date_le t (275760, 9, 13)
                     then Some t else None)
               else None))"

text \<open>The year of \<open>toISOString\<close>: four digits, or a sign and six digits outside 0..9999.\<close>

definition yearString :: "int \<Rightarrow> string" where
  "yearString y =
     (if 0 \<le> y \<and> y \<le> 9999 then padStart 4 (string_of_nat (nat y))
      else (if y < 0 then ''-'' else ''+'') @ padStart 6 (string_of_nat (nat \<bar>y\<bar>)))"

text \<open>\<open>d.toISOString().split('T')[0]\<close> for a valid \<open>Date\<close>.\<close>

fun toISODate :: "utc_day \<Rightarrow> string" where
  "toISODate (y, m, d) =
     yearString y @ ''-'' @ padStart 2 (string_of_nat m) @ ''-'' @ padStart 2 (string_of_nat d)"

section \<open>Access blocking at login (lines 114-146)\<close>

definition attendancePercentage :: "AttendanceRecord list \<Rightarrow> rat" where
  "attendancePercentage att =
     (let totalClasses = length att;
          presentClasses = length (filter (\<lambda>a. rec_status a = Present) att)
      in if totalClasses > 0
         then js_mul (js_div (of_nat presentClasses) (of_nat totalClasses)) 100
         else 100)"

definition isLowAttendance :: "AttendanceRecord list \<Rightarrow> bool" where
  "isLowAttendance att = (attendancePercentage att < 75)"

text \<open>The body of \<open>if (isLowAttendance)\<close>: the pair (\<open>needsUpdate\<close>, \<open>updatedStudent\<close>).\<close>

definition blockUpdate :: "Student \<Rightarrow> bool \<times> Student" where
  "blockUpdate studentData =
     (if \<not> isAccessBlocked studentData
      then (True, studentData\<lparr>isAccessBlocked := True, blockReason := Some LowAttendance\<rparr>)
      else if blockReason studentData = Some BehaviourIssue
      then (True, studentData\<lparr>blockReason := Some AttendanceAndBehaviour\<rparr>)
      else (False, studentData))"

definition accessBlockEffect :: "AppState \<Rightarrow> AppState" where
  "accessBlockEffect st =
     (case currentUser st of
        None \<Rightarrow> st
      | Some cu \<Rightarrow>
          if user_role cu = Student then
            (case findIndex (\<lambda>s. student_id s = user_id cu) (students st) of
               None \<Rightarrow> st
             | Some studentIndex \<Rightarrow>
                 (let studentData = students st ! studentIndex in
                  if isLowAttendance (attendance studentData) then
                    (case blockUpdate studentData of
                       (needsUpdate, updatedStudent) \<Rightarrow>
                         if needsUpdate
                         then st\<lparr>students := (students st)[studentIndex := updatedStudent]\<rparr>
                         else st)
                  else st))
          else st)"

section \<open>Signup (lines 200-251)\<close>

text \<open>
  \<open>now\<close> is \<open>Date.now()\<close>, \<open>rnd\<close> is \<open>Math.floor(Math.random() * 900)\<close>, and
  \<open>defaultStudentDataTemplate\<close> is \<open>MOCK_STUDENTS[0]\<close> of \<open>data/mockData\<close>.
\<close>

definition handleSignup ::
    "nat \<Rightarrow> nat \<Rightarrow> Student \<Rightarrow> SignupDetails \<Rightarrow> AppState \<Rightarrow> AppState" where
  "handleSignup now rnd defaultStudentDataTemplate details st =
     (if List.find (\<lambda>u. user_email u = details_email details) (users st) \<noteq> None
      then st\<lparr>authError := Some ''An account with this email already exists.'',
              isLoginView := True\<rparr>
      else
        (let newUserId = ''user-'' @ string_of_nat now;
             newUser = \<lparr>user_id = newUserId, user_name = details_name details,
                        user_email = details_email details, user_role = details_role details,
                        password = Some (details_password details), mobile = None,
                        registeredPhotoUrl = details_registeredPhotoUrl details,
                        childId = None, enableScanOnLogin = Some True\<rparr>;
             finish = (\<lambda>u s. s\<lparr>users := users st @ [u], currentUser := Some u,
                                 authError := None\<rparr>)
         in case user_role newUser of
              Student \<Rightarrow>
                (let newStudent = \<lparr>student_id = user_id newUser, student_name = user_name newUser,
                        rollNumber = ''S'' @ string_of_nat (rnd + 100),
                        department = department defaultStudentDataTemplate,
                        attendance = [], learningPath = None, isAccessBlocked = False,
                        behaviourStatus = Good, blockReason = None, progress = [],
                        temporaryAccessExpires = None, engagementStatus = None\<rparr>
                 in finish newUser (st\<lparr>students := students st @ [newStudent]\<rparr>))
            | Parent \<Rightarrow>
                (case details_childEmail details of
                   None \<Rightarrow> st\<lparr>authError :=
                       Some ''Please provide your child's email to create a parent account.''\<rparr>
                 | Some ce \<Rightarrow>
                     if ce = [] then st\<lparr>authError :=
                       Some ''Please provide your child's email to create a parent account.''\<rparr>
                     else
                       (case List.find (\<lambda>u. user_email u = ce \<and> user_role u = Student) (users st) of
                          None \<Rightarrow> st\<lparr>authError := Some (''No student account found with the email: ''
                                     @ ce @ ''. Please verify the email.'')\<rparr>
                        | Some childUser \<Rightarrow>
                            finish (newUser\<lparr>childId := Some (user_id childUser)\<rparr>) st))
            | Teacher \<Rightarrow> finish newUser st))"

section \<open>Leave approval (lines 272-321)\<close>

definition leaveRecord :: "string \<Rightarrow> string \<Rightarrow> AttendanceRecord" where
  "leaveRecord dateString teacherNm =
     \<lparr>rec_date = dateString, rec_subject = ''On Approved Leave'', rec_teacherName = teacherNm,
      rec_timestamp = ''All Day'', rec_status = Present\<rparr>"

definition hasLeaveRecordForDay :: "string \<Rightarrow> AttendanceRecord list \<Rightarrow> bool" where
  "hasLeaveRecordForDay dateString newAttendanceRecords =
     some (\<lambda>rec. rec_date rec = dateString \<and> rec_subject rec = ''On Approved Leave'')
       newAttendanceRecords"

text \<open>The body of the \<open>for\<close> loop for one day.\<close>

definition markLeaveDay :: "string \<Rightarrow> utc_day \<Rightarrow> AttendanceRecord list \<Rightarrow> AttendanceRecord list" where
  "markLeaveDay teacherNm d newAttendanceRecords =
     (let dateString = toISODate d in
      if \<not> hasLeaveRecordForDay dateString newAttendanceRecords
      then newAttendanceRecords @ [leaveRecord dateString teacherNm]
      else newAttendanceRecords)"

text \<open>\<open>for (let d = startDate; d <= endDate; d.setUTCDate(d.getUTCDate() + 1))\<close>.\<close>

function leaveLoop ::
    "string \<Rightarrow> utc_day \<Rightarrow> utc_day \<Rightarrow> AttendanceRecord list \<Rightarrow> AttendanceRecord list" where
  "leaveLoop teacherNm d endD newAttendanceRecords =
     (if date_le d endD
      then leaveLoop teacherNm (setUTCDate_next d) endD (markLeaveDay teacherNm d newAttendanceRecords)
      else newAttendanceRecords)"
  by pat_completeness auto
termination
proof (relation "measures [\<lambda>(t, (y, m, d), (y', m', d'), r). nat (y' + 1 - y),
                           \<lambda>(t, (y, m, d), e, r). 12 - m,
                           \<lambda>(t, (y, m, d), e, r). 31 - d]", goal_cases)
  case 1
  show ?case by simp
next
  case (2 teacherNm d endD newAttendanceRecords)
  obtain y m dd where d: "d = (y, m, dd)" by (cases d)
  obtain y' m' d' where e: "endD = (y', m', d')" by (cases endD)
  have dim: "days_in_month y m \<le> 31" by (simp add: days_in_month_def)
  from 2 have "y \<le> y'" by (auto simp: d e)
  then show ?case using dim by (auto simp: d e)
qed

declare leaveLoop.simps [simp del]

text \<open>\<open>teacher?.name || 'System'\<close>: the empty string is falsy.\<close>

definition teacherNameOrSystem :: "User option \<Rightarrow> string" where
  "teacherNameOrSystem teacher =
     (case teacher of
        None \<Rightarrow> ''System''
      | Some u \<Rightarrow> if user_name u = [] then ''System'' else user_name u)"

text \<open>Lines 289-314: the copy of the attendance array after the loop. A comparison
  with an invalid \<open>Date\<close> is false, so the loop body does not run.\<close>

definition synthesizeLeave ::
    "User list \<Rightarrow> LeaveApplication \<Rightarrow> AttendanceRecord list \<Rightarrow> AttendanceRecord list" where
  "synthesizeLeave us application att =
     (let teacher = List.find (\<lambda>u. user_role u = Teacher) us in
      case newDateUTC (startDate application) of
        None \<Rightarrow> att
      | Some startD \<Rightarrow>
          (case newDateUTC (endDate application) of
             None \<Rightarrow> att
           | Some endD \<Rightarrow> leaveLoop (teacherNameOrSystem teacher) startD endD att))"

definition handleUpdateLeaveStatus ::
    "string \<Rightarrow> LeaveStatus \<Rightarrow> string option \<Rightarrow> AppState \<Rightarrow> AppState" where
  "handleUpdateLeaveStatus applicationId status comment st =
     (case findIndex (\<lambda>app. leave_id app = applicationId) (leaveApplications st) of
        None \<Rightarrow> st
      | Some applicationIndex \<Rightarrow>
          (let application = leaveApplications st ! applicationIndex;
               updatedApplication = application\<lparr>leave_status := status, teacherComment := comment\<rparr>;
               st1 = st\<lparr>leaveApplications :=
                          (leaveApplications st)[applicationIndex := updatedApplication]\<rparr>
           in if status = Approved then
                (case findIndex (\<lambda>s. student_id s = leave_studentId application) (students st) of
                   None \<Rightarrow> st1
                 | Some studentIndex \<Rightarrow>
                     (let studentToUpdate = students st ! studentIndex;
                          newAttendanceRecords =
                            synthesizeLeave (users st) application (attendance studentToUpdate)
                      in st1\<lparr>students := (students st)[studentIndex :=
                                studentToUpdate\<lparr>attendance := newAttendanceRecords\<rparr>]\<rparr>))
              else st1))"

section \<open>Exams (lines 334-368)\<close>


definition handleDeleteExam :: "string \<Rightarrow> AppState \<Rightarrow> AppState" where
  "handleDeleteExam eid st =
     st\<lparr>exams := filter (\<lambda>e. exam_id e \<noteq> eid) (exams st),
        examSubmissions := filter (\<lambda>s. examId s \<noteq> eid) (examSubmissions st)\<rparr>"


text \<open>The \<open>forEach\<close> that counts the matching answers; a missing answer is \<open>undefined\<close>
  and matches no string.\<close>

definition countCorrect :: "Question list \<Rightarrow> (string \<rightharpoonup> string) \<Rightarrow> nat" where
  "countCorrect qs ans =
     fold (\<lambda>q correctAnswers.
             if Some (correctAnswer q) = ans (question_id q) then correctAnswers + 1
             else correctAnswers) qs 0"

definition examScore :: "Question list \<Rightarrow> (string \<rightharpoonup> string) \<Rightarrow> int" where
  "examScore qs ans =
     (let correctAnswers = countCorrect qs ans;
          score = (if length qs > 0
                   then js_mul (js_div (of_nat correctAnswers) (of_nat (length qs))) 100
                   else 0)
      in Math_round score)"

text \<open>\<open>now\<close> is \<open>Date.now()\<close>.\<close>

definition handleSubmitExam :: "nat \<Rightarrow> SubmissionInput \<Rightarrow> AppState \<Rightarrow> AppState" where
  "handleSubmitExam now submission st =
     (case List.find (\<lambda>e. exam_id e = in_examId submission) (exams st) of
        None \<Rightarrow> st
      | Some exam \<Rightarrow>
          (case currentUser st of
             None \<Rightarrow> st
           | Some cu \<Rightarrow>
               (case questions exam of
                  None \<Rightarrow> st
                | Some qs \<Rightarrow>
                    (let newSubmission =
                           \<lparr>submission_id = ''sub-'' @ string_of_nat now,
                            examId = in_examId submission,
                            submission_studentId = in_studentId submission,
                            submission_studentName = user_name cu,
                            answers = in_answers submission,
                            submittedAt = in_submittedAt submission,
                            score = examScore qs (in_answers submission),
                            submission_status = in_status submission\<rparr>
                     in st\<lparr>examSubmissions := examSubmissions st @ [newSubmission]\<rparr>))))"

section \<open>Quantities the specification names\<close>

text \<open>The attendance percentage as an exact fraction: 100 for no records, else
  100 times the number of Present records over the number of records.\<close>

definition presentCount :: "AttendanceRecord list \<Rightarrow> nat" where
  "presentCount att = length (filter (\<lambda>a. rec_status a = Present) att)"

definition exactPercentage :: "AttendanceRecord list \<Rightarrow> rat" where
  "exactPercentage att =
     (if att = [] then 100 else 100 * of_nat (presentCount att) / of_nat (length att))"

section \<open>Auxiliary notions for the leave loop\<close>

text \<open>The days the loop visits, in order.\<close>

function daysBetween :: "utc_day \<Rightarrow> utc_day \<Rightarrow> utc_day list" where
  "daysBetween d endD =
     (if date_le d endD then d # daysBetween (setUTCDate_next d) endD else [])"
  by pat_completeness auto
termination
proof (relation "measures [\<lambda>((y, m, d), (y', m', d')). nat (y' + 1 - y),
                           \<lambda>((y, m, d), e). 12 - m,
                           \<lambda>((y, m, d), e). 31 - d]", goal_cases)
  case 1
  show ?case by simp
next
  case (2 d endD)
  obtain y m dd where d: "d = (y, m, dd)" by (cases d)
  obtain y' m' d' where e: "endD = (y', m', d')" by (cases endD)
  have dim: "days_in_month y m \<le> 31" by (simp add: days_in_month_def)
  from 2 have "y \<le> y'" by (auto simp: d e)
  then show ?case using dim by (auto simp: d e)
qed

declare daysBetween.simps [simp del]

text \<open>The dates of the records whose subject is On Approved Leave.\<close>

definition leaveDates :: "AttendanceRecord list \<Rightarrow> string list" where
  "leaveDates att = map rec_date (filter (\<lambda>r. rec_subject r = ''On Approved Leave'') att)"

text \<open>The name of the first Teacher-role user, if there is one.\<close>

definition firstTeacherName :: "User list \<Rightarrow> string option" where
  "firstTeacherName us = map_option user_name (List.find (\<lambda>u. user_role u = Teacher) us)"

text \<open>The number a string of decimal digits denotes.\<close>

definition nat_of_string :: "string \<Rightarrow> nat" where
  "nat_of_string s = foldl (\<lambda>a c. 10 * a + (case digit_val c of None \<Rightarrow> 0 | Some v \<Rightarrow> v)) 0 s"

text \<open>The loop body applied to a list of date strings, in order.\<close>

definition markAll :: "string \<Rightarrow> string list \<Rightarrow> AttendanceRecord list \<Rightarrow> AttendanceRecord list" where
  "markAll teacherNm dss att =
     foldl (\<lambda>r ds. if \<not> hasLeaveRecordForDay ds r then r @ [leaveRecord ds teacherNm] else r)
       att dss"

text \<open>The days of an application: empty when a date does not parse.\<close>

definition leaveDays :: "LeaveApplication \<Rightarrow> utc_day list" where
  "leaveDays application =
     (case newDateUTC (startDate application) of
        None \<Rightarrow> []
      | Some startD \<Rightarrow>
          (case newDateUTC (endDate application) of
             None \<Rightarrow> []
           | Some endD \<Rightarrow> daysBetween startD endD))"

section \<open>Example data\<close>

definition ex_studentUser :: User where
  "ex_studentUser = \<lparr>user_id = ''user-1'', user_name = ''Asha'', user_email = ''student@school.com'',
     user_role = Student, password = Some ''pw'', mobile = None, registeredPhotoUrl = ''photo'',
     childId = None, enableScanOnLogin = Some True\<rparr>"

definition ex_teacherUser :: User where
  "ex_teacherUser = \<lparr>user_id = ''user-2'', user_name = ''Mr Rao'', user_email = ''teacher@school.com'',
     user_role = Teacher, password = Some ''pw'', mobile = None, registeredPhotoUrl = ''photo'',
     childId = None, enableScanOnLogin = None\<rparr>"

definition ex_record :: "string \<Rightarrow> string \<Rightarrow> AttendanceStatus \<Rightarrow> AttendanceRecord" where
  "ex_record dt subj stat = \<lparr>rec_date = dt, rec_subject = subj, rec_teacherName = ''Mr Rao'',
     rec_timestamp = ''09:05 AM'', rec_status = stat\<rparr>"

definition ex_student :: "AttendanceRecord list \<Rightarrow> Student" where
  "ex_student att = \<lparr>student_id = ''user-1'', student_name = ''Asha'', rollNumber = ''S101'',
     department = ''Physics'', attendance = att, learningPath = None, isAccessBlocked = False,
     behaviourStatus = Good, blockReason = None, progress = [],
     temporaryAccessExpires = None, engagementStatus = None\<rparr>"

definition ex_state :: "Student list \<Rightarrow> AppState" where
  "ex_state studs = \<lparr>currentUser = Some ex_studentUser, users = [ex_studentUser, ex_teacherUser],
     students = studs, leaveApplications = [], exams = [], examSubmissions = [],
     isLoginView = False, authError = None\<rparr>"

definition ex_submission :: "string \<Rightarrow> string \<Rightarrow> ExamSubmission" where
  "ex_submission sid eid = \<lparr>submission_id = sid, examId = eid, submission_studentId = ''user-1'',
     submission_studentName = ''Asha'', answers = Map.empty, submittedAt = 0, score = 50,
     submission_status = Completed\<rparr>"

definition ex_exam :: "string \<Rightarrow> Question list \<Rightarrow> Exam" where
  "ex_exam eid qs = \<lparr>exam_id = eid, exam_title = ''Quiz'', exam_subject = ''Maths'',
     durationMinutes = 30, createdBy = ''user-2'', questions = Some qs\<rparr>"

definition ex_exam_state :: AppState where
  "ex_exam_state = \<lparr>currentUser = Some ex_teacherUser, users = [ex_studentUser, ex_teacherUser],
     students = [], leaveApplications = [],
     exams = [ex_exam ''e1'' [], ex_exam ''e2'' []],
     examSubmissions = [ex_submission ''s1'' ''e1'', ex_submission ''s2'' ''e2'',
                        ex_submission ''s3'' ''e1''],
     isLoginView = False, authError = None\<rparr>"

definition ex_parentSignup :: "string option \<Rightarrow> SignupDetails" where
  "ex_parentSignup ce = \<lparr>details_name = ''Meera'', details_email = ''parent@home.org'',
     details_role = Parent, details_password = ''pw'', details_childEmail = ce,
     details_registeredPhotoUrl = ''photo''\<rparr>"

definition ex_leave :: "string \<Rightarrow> string \<Rightarrow> string \<Rightarrow> LeaveApplication" where
  "ex_leave sid start end = \<lparr>leave_id = ''leave-1'', leave_studentId = sid,
     leave_studentName = ''Asha'', studentRollNumber = ''S101'', startDate = start,
     endDate = end, reason = ''Family event'', documentUrl = None, leave_status = Pending,
     teacherComment = None, applicationDate = ''2024-01-05T08:00:00.000Z''\<rparr>"

definition ex_leave_state :: "User list \<Rightarrow> Student list \<Rightarrow> LeaveApplication list \<Rightarrow> AppState" where
  "ex_leave_state us studs apps = \<lparr>currentUser = Some ex_teacherUser, users = us,
     students = studs, leaveApplications = apps, exams = [], examSubmissions = [],
     isLoginView = False, authError = None\<rparr>"

definition ex_question :: "nat \<Rightarrow> Question" where
  "ex_question k = \<lparr>question_id = ''q'' @ string_of_nat k, question_text = ''Is it so?'',
     options = [''yes'', ''no''], correctAnswer = ''yes''\<rparr>"

text \<open>Answers that are right on the first \<open>c\<close> of \<open>n\<close> questions and wrong on the rest.\<close>

definition ex_answers :: "nat \<Rightarrow> nat \<Rightarrow> (string \<rightharpoonup> string)" where
  "ex_answers c n =
     map_of (map (\<lambda>k. (''q'' @ string_of_nat k, if k < c then ''yes'' else ''no'')) [0..<n])"

definition ex_submit_state :: "nat \<Rightarrow> AppState" where
  "ex_submit_state n = \<lparr>currentUser = Some ex_studentUser, users = [ex_studentUser, ex_teacherUser],
     students = [], leaveApplications = [],
     exams = [ex_exam ''e1'' (map ex_question [0..<n])], examSubmissions = [],
     isLoginView = False, authError = None\<rparr>"

definition ex_submission_input :: "nat \<Rightarrow> nat \<Rightarrow> SubmissionInput" where
  "ex_submission_input c n = \<lparr>in_examId = ''e1'', in_studentId = ''user-1'',
     in_answers = ex_answers c n, in_submittedAt = 0, in_status = Completed\<rparr>"

section \<open>Properties of the array helpers\<close>

lemma findIndex_Some_D:
  "findIndex P xs = Some i \<Longrightarrow> i < length xs \<and> P (xs ! i)"
proof (induction xs arbitrary: i)
  case Nil
  then show ?case by simp
next
  case (Cons x xs)
  then show ?case by (auto split: if_splits option.splits)
qed

lemma findIndex_None_iff: "findIndex P xs = None \<longleftrightarrow> (\<forall>x \<in> set xs. \<not> P x)"
  by (induction xs) (auto split: option.splits)

lemma findIndex_cong_map: "map P xs = map P ys \<Longrightarrow> findIndex P xs = findIndex P ys"
proof (induction xs arbitrary: ys)
  case Nil
  then show ?case by simp
next
  case (Cons x xs)
  then obtain y ys' where ys: "ys = y # ys'" by (cases ys) auto
  with Cons.prems have "P x = P y" "map P xs = map P ys'" by auto
  with Cons.IH[of ys'] show ?case by (simp add: ys)
qed

lemma findIndex_list_update:
  assumes "i < length xs" "P v = P (xs ! i)"
  shows "findIndex P (xs[i := v]) = findIndex P xs"
proof (rule findIndex_cong_map)
  show "map P (xs[i := v]) = map P xs"
    using assms by (simp add: map_update list_update_same_conv)
qed

section \<open>Rounding to binary64\<close>

lemma bitlen_pow_bounds:
  assumes "0 < (a::int)"
  shows "(2::rat) powi (bitlen a - 1) \<le> of_int a" "of_int a < (2::rat) powi (bitlen a)"
proof -
  have b: "2 ^ nat (bitlen a - 1) \<le> a" "a < 2 ^ nat (bitlen a)"
    using bitlen_bounds[OF assms] by auto
  have ge1: "1 \<le> bitlen a" using assms bitlen_eq_zero_iff[of a] bitlen_nonneg[of a] by linarith
  have "(of_int (2 ^ nat (bitlen a - 1)) :: rat) \<le> of_int a" using b(1) of_int_le_iff by blast
  then show "(2::rat) powi (bitlen a - 1) \<le> of_int a"
    using ge1 by (simp add: power_int_nonneg_exp)
  have "(of_int a :: rat) < of_int (2 ^ nat (bitlen a))" using b(2) of_int_less_iff by blast
  then show "of_int a < (2::rat) powi (bitlen a)"
    using ge1 by (simp add: power_int_nonneg_exp)
qed

lemma ilog2_bounds:
  assumes "0 < x"
  shows "2 powi (ilog2 x) \<le> x \<and> x < 2 powi (ilog2 x + 1)"
proof -
  obtain a b where q: "quotient_of x = (a, b)" by (cases "quotient_of x")
  have bpos: "0 < b" using q quotient_of_denom_pos by blast
  have x: "x = of_int a / of_int b" using q quotient_of_div by blast
  have apos: "0 < a" using assms bpos x by (simp add: zero_less_divide_iff)
  note A = bitlen_pow_bounds[OF apos]
  note B = bitlen_pow_bounds[OF bpos]
  define k where "k = bitlen a - bitlen b"
  have bq: "(0::rat) < of_int b" using bpos by simp
  have up: "x < 2 powi (k + 1)"
  proof -
    have "of_int a < (2::rat) powi (bitlen a)" by (rule A(2))
    also have "\<dots> = 2 powi (k + 1) * 2 powi (bitlen b - 1)"
      by (simp add: k_def power_int_add[symmetric])
    also have "\<dots> \<le> 2 powi (k + 1) * of_int b"
      using B(1) by (simp add: mult_left_mono)
    finally show ?thesis using bq by (simp add: x pos_divide_less_eq)
  qed
  have lo: "2 powi (k - 1) \<le> x"
  proof -
    have "2 powi (k - 1) * of_int b \<le> 2 powi (k - 1) * (2::rat) powi (bitlen b)"
      using B(2) by (simp add: mult_left_mono)
    also have "\<dots> = 2 powi (bitlen a - 1)"
      by (simp add: k_def power_int_add[symmetric])
    also have "\<dots> \<le> of_int a" by (rule A(1))
    finally show ?thesis using bq by (simp add: x pos_le_divide_eq)
  qed
  have il: "ilog2 x = (if 2 powi k \<le> x then k else k - 1)"
    by (simp add: ilog2_def q k_def Let_def)
  show ?thesis
  proof (cases "2 powi k \<le> x")
    case True
    then show ?thesis using up il by simp
  next
    case False
    then show ?thesis using lo il by simp
  qed
qed

lemma pow2_less_D: "(2::rat) powi a < 2 powi b \<Longrightarrow> a < b"
proof (rule ccontr)
  assume l: "(2::rat) powi a < 2 powi b" and "\<not> a < b"
  then have "b \<le> a" by simp
  then have "(2::rat) powi b \<le> 2 powi a" by (intro power_int_increasing) auto
  with l show False by simp
qed

lemma ilog2_mono:
  assumes "0 < x" "x \<le> y"
  shows "ilog2 x \<le> ilog2 y"
proof -
  have ypos: "0 < y" using assms by linarith
  from ilog2_bounds[OF assms(1)] have bx: "2 powi (ilog2 x) \<le> x" by auto
  from ilog2_bounds[OF ypos] have "y < 2 powi (ilog2 y + 1)" by auto
  then have "(2::rat) powi (ilog2 x) < 2 powi (ilog2 y + 1)" using bx assms(2) by linarith
  then have "ilog2 x < ilog2 y + 1" by (rule pow2_less_D)
  then show ?thesis by linarith
qed

lemma rte_of_int: "roundTiesToEven (of_int n) = n"
  by (simp add: roundTiesToEven_def)

lemma rte_bounds: "\<lfloor>y\<rfloor> \<le> roundTiesToEven y" "roundTiesToEven y \<le> \<lfloor>y\<rfloor> + 1"
  by (simp_all add: roundTiesToEven_def Let_def)

lemma rte_mono:
  assumes "a \<le> b"
  shows "roundTiesToEven a \<le> roundTiesToEven b"
proof (cases "\<lfloor>a\<rfloor> = \<lfloor>b\<rfloor>")
  case True
  then show ?thesis using assms by (auto simp add: roundTiesToEven_def Let_def)
next
  case False
  have "\<lfloor>a\<rfloor> \<le> \<lfloor>b\<rfloor>" using assms by (rule floor_mono)
  with False have "\<lfloor>a\<rfloor> + 1 \<le> \<lfloor>b\<rfloor>" by simp
  then show ?thesis using rte_bounds(2)[of a] rte_bounds(1)[of b] by linarith
qed

lemma pow2_split: "(2::rat) powi (k + e) = 2 ^ nat k * 2 powi e" if "0 \<le> k"
proof -
  have "(2::rat) powi (k + e) = 2 powi k * 2 powi e" by (rule power_int_add) simp
  then show ?thesis using that by (simp add: power_int_nonneg_exp)
qed

lemma roundDouble_pos_bounds:
  assumes "0 < x"
  shows "2 powi (ilog2 x) \<le> roundDouble x" "roundDouble x \<le> 2 powi (ilog2 x + 1)"
proof -
  define e where "e = ilog2 x - 52"
  define m where "m = roundTiesToEven (x / 2 powi e)"
  have pe: "(0::rat) < 2 powi e" by simp
  from ilog2_bounds[OF assms] have b: "2 powi (ilog2 x) \<le> x" "x < 2 powi (ilog2 x + 1)" by auto
  have r: "roundDouble x = of_int m * 2 powi e"
    using assms by (simp add: roundDouble_def e_def m_def Let_def)
  have "ilog2 x = 52 + e" "ilog2 x + 1 = 53 + e" by (simp_all add: e_def)
  then have s1: "(2::rat) powi (ilog2 x) = of_int (2 ^ 52) * 2 powi e"
    and s2: "(2::rat) powi (ilog2 x + 1) = of_int (2 ^ 53) * 2 powi e"
    using pow2_split[of 52 e] pow2_split[of 53 e] by simp_all
  have "of_int (2 ^ 52) * 2 powi e \<le> x" using b(1) s1 by simp
  then have "of_int (2 ^ 52) \<le> x / 2 powi e" using pe by (simp only: pos_le_divide_eq)
  then have "roundTiesToEven (of_int (2 ^ 52)) \<le> m"
    unfolding m_def by (rule rte_mono)
  then have "(of_int (2 ^ 52) :: rat) \<le> of_int m"
    by (simp only: rte_of_int of_int_le_iff)
  then have "of_int (2 ^ 52) * 2 powi e \<le> of_int m * (2::rat) powi e"
    using pe by (intro mult_right_mono) simp_all
  then show "2 powi (ilog2 x) \<le> roundDouble x" by (simp only: r s1)
  have "x \<le> of_int (2 ^ 53) * 2 powi e" using b(2) s2 by simp
  then have "x / 2 powi e \<le> of_int (2 ^ 53)" using pe by (simp only: pos_divide_le_eq)
  then have "m \<le> roundTiesToEven (of_int (2 ^ 53))"
    unfolding m_def by (rule rte_mono)
  then have "(of_int m :: rat) \<le> of_int (2 ^ 53)"
    by (simp only: rte_of_int of_int_le_iff)
  then have "of_int m * 2 powi e \<le> of_int (2 ^ 53) * (2::rat) powi e"
    using pe by (intro mult_right_mono) simp_all
  then show "roundDouble x \<le> 2 powi (ilog2 x + 1)" by (simp only: r s2)
qed

lemma roundDouble_nonneg:
  assumes "0 \<le> x"
  shows "0 \<le> roundDouble x"
proof (cases "x = 0")
  case True
  then show ?thesis by (simp add: roundDouble_def)
next
  case False
  then have "0 < x" using assms by simp
  from roundDouble_pos_bounds(1)[OF this] show ?thesis
    using zero_le_power_int[of "2::rat" "ilog2 x"] by linarith
qed

lemma roundDouble_mono:
  assumes "0 \<le> x" "x \<le> y"
  shows "roundDouble x \<le> roundDouble y"
proof (cases "x = 0")
  case True
  have "0 \<le> roundDouble y" using assms by (intro roundDouble_nonneg) simp
  then show ?thesis using True by (simp add: roundDouble_def)
next
  case False
  then have xpos: "0 < x" using assms by simp
  then have ypos: "0 < y" using assms by linarith
  have le: "ilog2 x \<le> ilog2 y" using xpos assms(2) by (rule ilog2_mono)
  show ?thesis
  proof (cases "ilog2 x = ilog2 y")
    case True
    define e where "e = ilog2 y - 52"
    have pe: "(0::rat) < 2 powi e" by simp
    have "x / 2 powi e \<le> y / 2 powi e" using assms(2) pe by (simp add: divide_right_mono)
    then have "roundTiesToEven (x / 2 powi e) \<le> roundTiesToEven (y / 2 powi e)" by (rule rte_mono)
    then have "(of_int (roundTiesToEven (x / 2 powi e)) :: rat) * 2 powi e
               \<le> of_int (roundTiesToEven (y / 2 powi e)) * 2 powi e"
      using pe by (intro mult_right_mono) simp_all
    then show ?thesis using xpos ypos True by (simp add: roundDouble_def e_def Let_def)
  next
    case False
    with le have "ilog2 x + 1 \<le> ilog2 y" by simp
    then have "(2::rat) powi (ilog2 x + 1) \<le> 2 powi (ilog2 y)" by (intro power_int_increasing) auto
    then show ?thesis
      using roundDouble_pos_bounds(2)[OF xpos] roundDouble_pos_bounds(1)[OF ypos] by linarith
  qed
qed

text \<open>The percentage of \<open>p\<close> out of \<open>t\<close> as the source computes it.\<close>

lemma percent_mono:
  assumes "0 \<le> x" "x \<le> y"
  shows "js_mul (roundDouble x) 100 \<le> js_mul (roundDouble y) 100"
proof -
  have "roundDouble x \<le> roundDouble y" using assms by (rule roundDouble_mono)
  moreover have "0 \<le> roundDouble x" using assms(1) by (rule roundDouble_nonneg)
  ultimately show ?thesis unfolding js_mul_def by (intro roundDouble_mono) simp_all
qed

lemma percent_three_quarters: "js_mul (roundDouble (3/4)) 100 = 75"
  by code_simp

lemma percent_below_three_quarters: "js_mul (roundDouble (3/4 - 1/2^34)) 100 < 75"
  by code_simp

lemma percent_one: "js_mul (roundDouble 1) 100 = 100"
  by code_simp

lemma percent_zero: "js_mul (roundDouble 0) 100 = 0"
  by code_simp

lemma percent_low_iff:
  fixes p t :: nat
  assumes "0 < t" "t < 2 ^ 32"
  shows "js_mul (js_div (of_nat p) (of_nat t)) 100 < 75 \<longleftrightarrow> 4 * p < 3 * t"
proof
  assume low: "js_mul (js_div (of_nat p) (of_nat t)) 100 < 75"
  show "4 * p < 3 * t"
  proof (rule ccontr)
    assume "\<not> 4 * p < 3 * t"
    then have "3 * t \<le> 4 * p" by simp
    then have "(of_nat (3 * t) :: rat) \<le> of_nat (4 * p)" by (simp only: of_nat_le_iff)
    then have "(3/4 :: rat) \<le> of_nat p / of_nat t"
      using assms(1) by (simp add: pos_le_divide_eq)
    then have "js_mul (roundDouble (3/4)) 100 \<le> js_mul (roundDouble (of_nat p / of_nat t)) 100"
      by (intro percent_mono) simp_all
    with low show False by (simp add: percent_three_quarters js_div_def)
  qed
next
  assume "4 * p < 3 * t"
  then have "4 * p + 1 \<le> 3 * t" by simp
  then have "(of_nat (4 * p + 1) :: rat) \<le> of_nat (3 * t)" by (simp only: of_nat_le_iff)
  then have a: "(4 * of_nat p + 1 :: rat) \<le> 3 * of_nat t" by simp
  have tpos: "(0::rat) < of_nat t" using assms(1) by simp
  have "(of_nat t :: rat) < of_nat (2 ^ 32)" using assms(2) by (simp only: of_nat_less_iff)
  then have tb: "(of_nat t :: rat) < 2 ^ 32" by simp
  have "(of_nat p :: rat) / of_nat t \<le> 3/4 - 1 / (4 * of_nat t)"
    using a tpos by (simp add: field_simps)
  also have "\<dots> \<le> 3/4 - 1 / 2 ^ 34"
  proof -
    have "(4 * of_nat t :: rat) \<le> 2 ^ 34" using tb by simp
    then have "(1::rat) / 2 ^ 34 \<le> 1 / (4 * of_nat t)"
      using tpos by (intro divide_left_mono) simp_all
    then show ?thesis by simp
  qed
  finally have "js_mul (roundDouble (of_nat p / of_nat t)) 100 \<le> js_mul (roundDouble (3/4 - 1/2^34)) 100"
    by (intro percent_mono) simp_all
  then show "js_mul (js_div (of_nat p) (of_nat t)) 100 < 75"
    using percent_below_three_quarters by (simp add: js_div_def)
qed

section \<open>The access-block evaluator\<close>

lemma isLowAttendance_exact:
  assumes "length att < 2 ^ 32"
  shows "isLowAttendance att \<longleftrightarrow> exactPercentage att < 75"
proof (cases "att = []")
  case True
  then show ?thesis
    by (simp add: isLowAttendance_def attendancePercentage_def exactPercentage_def)
next
  case False
  then have len: "0 < length att" by simp
  have tpos: "(0::rat) < of_nat (length att)" using len by simp
  have "isLowAttendance att \<longleftrightarrow> 4 * presentCount att < 3 * length att"
    using percent_low_iff[OF len assms, of "presentCount att"] len
    by (simp add: isLowAttendance_def attendancePercentage_def presentCount_def Let_def)
  also have "\<dots> \<longleftrightarrow> (of_nat (4 * presentCount att) :: rat) < of_nat (3 * length att)"
    by (simp only: of_nat_less_iff)
  also have "\<dots> \<longleftrightarrow> exactPercentage att < 75"
    using False tpos by (simp add: exactPercentage_def pos_divide_less_eq)
  finally show ?thesis .
qed

lemma blockUpdate_snd_fixed:
  "blockUpdate (snd (blockUpdate s)) = (False, snd (blockUpdate s))"
  by (simp add: blockUpdate_def)

lemma accessBlockEffect_idem_aux:
  "accessBlockEffect (accessBlockEffect st) = accessBlockEffect st"
proof (cases "currentUser st")
  case None
  then show ?thesis by (simp add: accessBlockEffect_def)
next
  case (Some cu)
  show ?thesis
  proof (cases "user_role cu = Student")
    case False
    with Some show ?thesis by (simp add: accessBlockEffect_def)
  next
    case True
    show ?thesis
    proof (cases "findIndex (\<lambda>s. student_id s = user_id cu) (students st)")
      case None
      with Some True show ?thesis by (simp add: accessBlockEffect_def)
    next
      case (Some i)
      note idx = findIndex_Some_D[OF Some]
      define sd where "sd = students st ! i"
      show ?thesis
      proof (cases "isLowAttendance (attendance sd) \<and> fst (blockUpdate sd)")
        case False
        then have "accessBlockEffect st = st"
          using \<open>currentUser st = Some cu\<close> True Some
          by (auto simp: accessBlockEffect_def sd_def Let_def split: prod.splits)
        then show ?thesis by simp
      next
        case low: True
        define upd where "upd = snd (blockUpdate sd)"
        define st' where "st' = st\<lparr>students := (students st)[i := upd]\<rparr>"
        have eff: "accessBlockEffect st = st'"
          using \<open>currentUser st = Some cu\<close> True Some low
          by (auto simp: accessBlockEffect_def sd_def st'_def upd_def Let_def split: prod.splits)
        have id_upd: "student_id upd = student_id sd" and att_upd: "attendance upd = attendance sd"
          by (simp_all add: upd_def blockUpdate_def)
        have fi: "findIndex (\<lambda>s. student_id s = user_id cu) (students st') = Some i"
          using idx id_upd Some by (simp add: st'_def findIndex_list_update sd_def)
        have nth: "students st' ! i = upd" using idx by (simp add: st'_def)
        have fixed: "blockUpdate upd = (False, upd)"
          unfolding upd_def by (rule blockUpdate_snd_fixed)
        have "accessBlockEffect st' = st'"
          using \<open>currentUser st = Some cu\<close> True fi nth fixed
          by (simp add: accessBlockEffect_def st'_def Let_def)
        then show ?thesis by (simp add: eff)
      qed
    qed
  qed
qed

lemma accessBlockEffect_closed:
  assumes "currentUser st = Some cu" "user_role cu = Student"
    and "findIndex (\<lambda>s. student_id s = user_id cu) (students st) = Some i"
  shows "accessBlockEffect st =
           st\<lparr>students := (students st)[i :=
                 (if isLowAttendance (attendance (students st ! i))
                  then snd (blockUpdate (students st ! i)) else students st ! i)]\<rparr>"
proof -
  have same: "st\<lparr>students := (students st)[i := students st ! i]\<rparr> = st" by simp
  have nup: "\<not> fst (blockUpdate s) \<Longrightarrow> snd (blockUpdate s) = s" for s
    by (simp add: blockUpdate_def split: if_splits)
  show ?thesis
  proof (cases "isLowAttendance (attendance (students st ! i))")
    case False
    then show ?thesis using assms same by (simp add: accessBlockEffect_def Let_def)
  next
    case True
    show ?thesis
    proof (cases "fst (blockUpdate (students st ! i))")
      case True
      with \<open>isLowAttendance _\<close> assms show ?thesis
        by (auto simp: accessBlockEffect_def Let_def split: prod.splits)
    next
      case False
      with \<open>isLowAttendance _\<close> assms nup[OF False] same show ?thesis
        by (auto simp: accessBlockEffect_def Let_def split: prod.splits)
    qed
  qed
qed

section \<open>Decimal strings and ISO dates\<close>

lemma lt10_cases: "k < 10 \<Longrightarrow> k \<in> {0, 1, 2, 3, 4, 5, 6, 7, 8, 9::nat}"
  by (simp; arith)

lemma digit_val_digit_char: "n < 10 \<Longrightarrow> digit_val (digit_char n) = Some n"
proof -
  assume "n < 10"
  then have "n \<in> {0, 1, 2, 3, 4, 5, 6, 7, 8, 9}" by (rule lt10_cases)
  then show ?thesis by (auto simp: digit_val_def digit_char_def)
qed

lemma digit_char_not_sign: "digit_char n \<noteq> CHR ''+''" "digit_char n \<noteq> CHR ''-''"
proof -
  have "n mod 10 \<in> {0, 1, 2, 3, 4, 5, 6, 7, 8, 9}" by (rule lt10_cases) simp
  then show "digit_char n \<noteq> CHR ''+''" "digit_char n \<noteq> CHR ''-''"
    unfolding digit_char_def by (elim insertE; simp)+
qed

lemma nat_of_string_snoc:
  "nat_of_string (s @ [c]) = 10 * nat_of_string s + (case digit_val c of None \<Rightarrow> 0 | Some v \<Rightarrow> v)"
  by (simp add: nat_of_string_def)

lemma nat_of_string_of_nat: "nat_of_string (string_of_nat n) = n"
proof (induction n rule: string_of_nat.induct)
  case (1 n)
  show ?case
  proof (cases "n < 10")
    case True
    then show ?thesis
      by (subst string_of_nat.simps) (simp add: nat_of_string_def digit_val_digit_char)
  next
    case False
    have "nat_of_string (string_of_nat n)
            = 10 * nat_of_string (string_of_nat (n div 10)) + n mod 10"
      using False
      by (subst string_of_nat.simps) (simp add: nat_of_string_snoc digit_val_digit_char)
    then show ?thesis using 1[OF False] by simp
  qed
qed

lemma digit_val_zero: "digit_val CHR ''0'' = Some 0"
  by (simp add: digit_val_def)

lemma nat_of_string_zeros: "nat_of_string (replicate k CHR ''0'' @ s) = nat_of_string s"
proof (induction k)
  case 0
  show ?case by simp
next
  case (Suc k)
  have "nat_of_string (CHR ''0'' # t) = nat_of_string t" for t
    by (simp add: nat_of_string_def digit_val_zero)
  with Suc show ?case by simp
qed

lemma nat_of_padStart: "nat_of_string (padStart k (string_of_nat n)) = n"
  by (simp add: padStart_def nat_of_string_zeros nat_of_string_of_nat)

lemma padStart_inj: "padStart k (string_of_nat n) = padStart k' (string_of_nat n') \<Longrightarrow> n = n'"
  using nat_of_padStart[of k n] nat_of_padStart[of k' n'] by simp

lemma string_of_nat_nonempty: "string_of_nat n \<noteq> []"
  by (subst string_of_nat.simps) simp

lemma string_of_nat_hd: "hd (string_of_nat n) \<in> digit_char ` UNIV"
proof (induction n rule: string_of_nat.induct)
  case (1 n)
  show ?case
  proof (cases "n < 10")
    case True
    then show ?thesis by (subst string_of_nat.simps) simp
  next
    case False
    then show ?thesis
      using 1[OF False] string_of_nat_nonempty[of "n div 10"]
      by (subst string_of_nat.simps) simp
  qed
qed

lemma padStart_hd_not_sign:
  "hd (padStart k (string_of_nat n)) \<noteq> CHR ''+''" "hd (padStart k (string_of_nat n)) \<noteq> CHR ''-''"
proof -
  have "hd (padStart k (string_of_nat n)) = CHR ''0''
        \<or> hd (padStart k (string_of_nat n)) = hd (string_of_nat n)"
    by (cases "k - length (string_of_nat n)") (simp_all add: padStart_def)
  moreover obtain j where "hd (string_of_nat n) = digit_char j"
    using string_of_nat_hd[of n] by auto
  ultimately show "hd (padStart k (string_of_nat n)) \<noteq> CHR ''+''"
    "hd (padStart k (string_of_nat n)) \<noteq> CHR ''-''"
    using digit_char_not_sign by auto
qed

lemma length_string_of_nat_2: "n < 100 \<Longrightarrow> length (padStart 2 (string_of_nat n)) = 2"
proof -
  assume n: "n < 100"
  have l: "length (string_of_nat n) = (if n < 10 then 1 else 2)"
  proof (cases "n < 10")
    case True
    then show ?thesis by (subst string_of_nat.simps) simp
  next
    case False
    then have "n div 10 < 10" using n by simp
    then have "length (string_of_nat (n div 10)) = 1" by (subst string_of_nat.simps) simp
    with False show ?thesis by (subst string_of_nat.simps) simp
  qed
  show ?thesis by (simp add: padStart_def l)
qed

lemma yearString_hd:
  "hd (yearString z) = (if 0 \<le> z \<and> z \<le> 9999 then hd (padStart 4 (string_of_nat (nat z)))
                        else if z < 0 then CHR ''-'' else CHR ''+'')"
  by (simp add: yearString_def)

lemma yearString_inj: "yearString y = yearString y' \<Longrightarrow> y = y'"
proof -
  assume eq: "yearString y = yearString y'"
  then have hd_eq: "hd (yearString y) = hd (yearString y')" by simp
  note ns = padStart_hd_not_sign[of 4 "nat y"] padStart_hd_not_sign[of 4 "nat y'"]
  consider (small) "0 \<le> y \<and> y \<le> 9999" | (neg) "y < 0" | (big) "9999 < y" by linarith
  then show ?thesis
  proof cases
    case small
    have s': "0 \<le> y' \<and> y' \<le> 9999"
      using hd_eq small ns unfolding yearString_hd by (auto split: if_splits)
    from eq small s' have "nat y = nat y'" by (auto simp: yearString_def dest: padStart_inj)
    then show ?thesis using small s' by arith
  next
    case neg
    have n': "y' < 0"
      using hd_eq neg ns unfolding yearString_hd by (auto split: if_splits)
    from eq neg n' have "nat \<bar>y\<bar> = nat \<bar>y'\<bar>" by (auto simp: yearString_def dest: padStart_inj)
    then show ?thesis using neg n' by arith
  next
    case big
    have b': "9999 < y'"
      using hd_eq big ns unfolding yearString_hd by (auto split: if_splits)
    from eq big b' have "nat \<bar>y\<bar> = nat \<bar>y'\<bar>" by (auto simp: yearString_def dest: padStart_inj)
    then show ?thesis using big b' by arith
  qed
qed

lemma days_in_month_le: "days_in_month y m \<le> 31"
  by (simp add: days_in_month_def)

lemma append_eq_same_length:
  "xs @ us = ys @ vs \<Longrightarrow> length us = length vs \<Longrightarrow> xs = ys \<and> us = vs"
  by (simp add: append_eq_append_conv)

lemma toISODate_inj:
  assumes "valid_day a" "valid_day b" "toISODate a = toISODate b"
  shows "a = b"
proof -
  obtain y m d where a: "a = (y, m, d)" by (cases a)
  obtain y' m' d' where b: "b = (y', m', d')" by (cases b)
  have bd: "m < 100" "d < 100" "m' < 100" "d' < 100"
    using assms(1,2) days_in_month_le[of y m] days_in_month_le[of y' m'] by (auto simp: a b)
  note L = length_string_of_nat_2
  define M where "M = padStart 2 (string_of_nat m)"
  define M' where "M' = padStart 2 (string_of_nat m')"
  define D where "D = padStart 2 (string_of_nat d)"
  define D' where "D' = padStart 2 (string_of_nat d')"
  have len: "length M = 2" "length M' = 2" "length D = 2" "length D' = 2"
    using L bd by (simp_all add: M_def M'_def D_def D'_def)
  have "(yearString y @ ''-'' @ M @ ''-'') @ D = (yearString y' @ ''-'' @ M' @ ''-'') @ D'"
    using assms(3) by (simp add: a b M_def M'_def D_def D'_def)
  then have "yearString y @ ''-'' @ M @ ''-'' = yearString y' @ ''-'' @ M' @ ''-'' \<and> D = D'"
    by (rule append_eq_same_length) (simp add: len)
  then have e1: "yearString y @ ''-'' @ M @ ''-'' = yearString y' @ ''-'' @ M' @ ''-''"
    and dd: "D = D'"
    by simp_all
  from e1 have "(yearString y @ ''-'') @ (M @ ''-'') = (yearString y' @ ''-'') @ (M' @ ''-'')"
    by simp
  then have "yearString y @ ''-'' = yearString y' @ ''-'' \<and> M @ ''-'' = M' @ ''-''"
    by (rule append_eq_same_length) (simp add: len)
  then have "yearString y = yearString y'" and mm: "M = M'" by simp_all
  then have "y = y'" by (simp add: yearString_inj)
  moreover from mm have "m = m'" unfolding M_def M'_def by (rule padStart_inj)
  moreover from dd have "d = d'" unfolding D_def D'_def by (rule padStart_inj)
  ultimately show ?thesis by (simp add: a b)
qed

section \<open>The days the leave loop visits\<close>

lemma date_le_refl: "date_le a a"
  by (cases a) simp

lemma date_le_trans: "date_le a b \<Longrightarrow> date_le b c \<Longrightarrow> date_le a c"
  by (cases a; cases b; cases c) auto

lemma date_le_antisym: "date_le a b \<Longrightarrow> date_le b a \<Longrightarrow> a = b"
  by (cases a; cases b) auto

lemma date_le_total: "date_le a b \<or> date_le b a"
  by (cases a; cases b) auto

lemma next_valid: "valid_day a \<Longrightarrow> valid_day (setUTCDate_next a)"
  by (cases a) (auto simp: days_in_month_def)

lemma next_greater: "date_le a (setUTCDate_next a)" "setUTCDate_next a \<noteq> a"
  by (cases a; auto)+

lemma next_not_le: "\<not> date_le (setUTCDate_next a) a"
  using next_greater[of a] date_le_antisym by blast

lemma next_least:
  assumes "valid_day a" "valid_day b" "date_le a b" "a \<noteq> b"
  shows "date_le (setUTCDate_next a) b"
proof -
  obtain y m d where a: "a = (y, m, d)" by (cases a)
  obtain y' m' d' where b: "b = (y', m', d')" by (cases b)
  show ?thesis using assms unfolding a b by (auto split: if_splits)
qed

lemma daysBetween_set:
  "valid_day s \<Longrightarrow> set (daysBetween s e) = {d. valid_day d \<and> date_le s d \<and> date_le d e}"
proof (induction s e rule: daysBetween.induct)
  case (1 d endD)
  show ?case
  proof (cases "date_le d endD")
    case False
    then have "daysBetween d endD = []" by (subst daysBetween.simps) simp
    moreover have "\<not> (date_le d x \<and> date_le x endD)" for x
      using False date_le_trans by blast
    ultimately show ?thesis by auto
  next
    case True
    have nv: "valid_day (setUTCDate_next d)" using "1.prems" by (rule next_valid)
    have unf: "daysBetween d endD = d # daysBetween (setUTCDate_next d) endD"
      using True by (subst daysBetween.simps) simp
    have IH: "set (daysBetween (setUTCDate_next d) endD)
              = {x. valid_day x \<and> date_le (setUTCDate_next d) x \<and> date_le x endD}"
      using "1.IH"[OF True nv] .
    have "{x. valid_day x \<and> date_le d x \<and> date_le x endD}
          = insert d {x. valid_day x \<and> date_le (setUTCDate_next d) x \<and> date_le x endD}"
    proof (intro set_eqI iffI)
      fix x assume "x \<in> {x. valid_day x \<and> date_le d x \<and> date_le x endD}"
      then show "x \<in> insert d {x. valid_day x \<and> date_le (setUTCDate_next d) x \<and> date_le x endD}"
        using next_least[OF "1.prems", of x] by auto
    next
      fix x assume "x \<in> insert d {x. valid_day x \<and> date_le (setUTCDate_next d) x \<and> date_le x endD}"
      then consider "x = d" | "valid_day x" "date_le (setUTCDate_next d) x" "date_le x endD"
        by auto
      then show "x \<in> {x. valid_day x \<and> date_le d x \<and> date_le x endD}"
      proof cases
        case 1
        then show ?thesis using "1.prems" True date_le_refl[of d] by simp
      next
        case 2
        have "date_le d x" using next_greater(1)[of d] 2(2) by (rule date_le_trans)
        then show ?thesis using 2 by simp
      qed
    qed
    then show ?thesis by (simp add: unf IH)
  qed
qed

lemma daysBetween_distinct: "valid_day s \<Longrightarrow> distinct (daysBetween s e)"
proof (induction s e rule: daysBetween.induct)
  case (1 d endD)
  show ?case
  proof (cases "date_le d endD")
    case False
    then show ?thesis by (subst daysBetween.simps) simp
  next
    case True
    have nv: "valid_day (setUTCDate_next d)" using "1.prems" by (rule next_valid)
    have "d \<notin> set (daysBetween (setUTCDate_next d) endD)"
      using next_not_le[of d] by (simp add: daysBetween_set[OF nv])
    then show ?thesis using "1.IH"[OF True nv] True by (subst daysBetween.simps) simp
  qed
qed

lemma daysBetween_iso_distinct:
  assumes "valid_day s"
  shows "distinct (map toISODate (daysBetween s e))"
proof -
  have "inj_on toISODate (set (daysBetween s e))"
  proof (rule inj_onI)
    fix a b
    assume "a \<in> set (daysBetween s e)" "b \<in> set (daysBetween s e)"
      and eq: "toISODate a = toISODate b"
    then have "valid_day a" "valid_day b" using daysBetween_set[OF assms] by blast+
    then show "a = b" using eq by (rule toISODate_inj)
  qed
  then show ?thesis using daysBetween_distinct[OF assms] by (simp add: distinct_map)
qed

lemma newDateUTC_valid: "newDateUTC s = Some t \<Longrightarrow> valid_day t"
proof -
  assume a: "newDateUTC s = Some t"
  then obtain y rest m d where p: "parseYear s = Some (y, rest)" "parseMonthDay rest = Some (m, d)"
    and r: "1 \<le> m" "m \<le> 12" "1 \<le> d" "d \<le> 31"
    and t: "t = (if d \<le> days_in_month y m then (y, m, d) else (y, m + 1, d - days_in_month y m))"
    by (auto simp: newDateUTC_def Let_def split: option.splits prod.splits if_splits)
  show ?thesis
  proof (cases "d \<le> days_in_month y m")
    case True
    then show ?thesis using r t by simp
  next
    case False
    then have "m = 2 \<or> m = 4 \<or> m = 6 \<or> m = 9 \<or> m = 11"
      using r by (auto simp: days_in_month_def split: if_splits)
    then show ?thesis using False r t by (auto simp: days_in_month_def split: if_splits)
  qed
qed

section \<open>Reading back a printed date\<close>

lemma digits_acc_snoc:
  "digits_acc a (s @ [c]) =
     (case digits_acc a s of
        None \<Rightarrow> None
      | Some v \<Rightarrow> (case digit_val c of None \<Rightarrow> None | Some w \<Rightarrow> Some (10 * v + w)))"
  by (induction s arbitrary: a) (simp_all split: option.splits)

lemma digits_acc_string_of_nat: "digits_acc 0 (string_of_nat n) = Some n"
proof (induction n rule: string_of_nat.induct)
  case (1 n)
  show ?case
  proof (cases "n < 10")
    case True
    then show ?thesis by (subst string_of_nat.simps) (simp add: digit_val_digit_char)
  next
    case False
    then show ?thesis
      using 1[OF False]
      by (subst string_of_nat.simps) (simp add: digits_acc_snoc digit_val_digit_char)
  qed
qed

lemma digits_acc_zeros: "digits_acc 0 (replicate k CHR ''0'' @ s) = digits_acc 0 s"
  by (induction k) (simp_all add: digit_val_zero)

lemma digits_acc_padStart: "digits_acc 0 (padStart k (string_of_nat n)) = Some n"
  by (simp add: padStart_def digits_acc_zeros digits_acc_string_of_nat)

lemma length_string_of_nat_le: "n < 10 ^ k \<Longrightarrow> 0 < k \<Longrightarrow> length (string_of_nat n) \<le> k"
proof (induction n arbitrary: k rule: string_of_nat.induct)
  case (1 n)
  show ?case
  proof (cases "n < 10")
    case True
    then show ?thesis using "1.prems"(2) by (subst string_of_nat.simps) simp
  next
    case False
    obtain k' where k: "k = Suc k'" using "1.prems"(2) by (cases k) auto
    have "k' \<noteq> 0"
    proof
      assume "k' = 0"
      then have "n < 10" using "1.prems"(1) by (simp add: k)
      with False show False by simp
    qed
    moreover have "n div 10 < 10 ^ k'" using "1.prems"(1) by (simp add: k less_mult_imp_div_less)
    ultimately have "length (string_of_nat (n div 10)) \<le> k'"
      using "1.IH"[OF False, of k'] by simp
    then show ?thesis using False by (subst string_of_nat.simps) (simp add: k)
  qed
qed

lemma length_padStart: "n < 10 ^ k \<Longrightarrow> 0 < k \<Longrightarrow> length (padStart k (string_of_nat n)) = k"
  using length_string_of_nat_le[of n k] by (simp add: padStart_def)

lemma parse_digits_padStart:
  "n < 10 ^ k \<Longrightarrow> 0 < k \<Longrightarrow> parse_digits k (padStart k (string_of_nat n)) = Some n"
  by (simp add: parse_digits_def length_padStart digits_acc_padStart)

lemma parseYear_unsigned:
  assumes "s \<noteq> []" "hd s \<noteq> CHR ''+''" "hd s \<noteq> CHR ''-''"
  shows "parseYear s = (case parse_digits 4 (take 4 s) of
                          None \<Rightarrow> None
                        | Some v \<Rightarrow> Some (int v, drop 4 s))"
  using assms by (cases s) (simp_all add: parseYear_def cong: option.case_cong)

lemma parseYear_yearString:
  assumes "0 \<le> y" "y \<le> 9999"
  shows "parseYear (yearString y @ rest) = Some (y, rest)"
proof -
  define Y where "Y = padStart 4 (string_of_nat (nat y))"
  have n: "nat y < 10 ^ 4" using assms by simp
  have len: "length Y = 4" unfolding Y_def using n by (rule length_padStart) simp
  have pd: "parse_digits 4 Y = Some (nat y)"
    unfolding Y_def using n by (rule parse_digits_padStart) simp
  have ne: "Y \<noteq> []" using len by auto
  then have hd: "hd (Y @ rest) = hd Y" by simp
  have sgn: "hd (Y @ rest) \<noteq> CHR ''+''" "hd (Y @ rest) \<noteq> CHR ''-''"
    unfolding hd using padStart_hd_not_sign[of 4 "nat y"] by (simp_all add: Y_def)
  have "parseYear (Y @ rest) = (case parse_digits 4 (take 4 (Y @ rest)) of
                          None \<Rightarrow> None
                        | Some v \<Rightarrow> Some (int v, drop 4 (Y @ rest)))"
    using ne sgn by (intro parseYear_unsigned) simp_all
  also have "\<dots> = Some (int (nat y), rest)" using len pd by simp
  finally show ?thesis using assms by (simp add: yearString_def Y_def)
qed

lemma newDateUTC_toISODate:
  assumes "valid_day (y, m, d)" "0 \<le> y" "y \<le> 9999"
  shows "newDateUTC (toISODate (y, m, d)) = Some (y, m, d)"
proof -
  have md: "1 \<le> m" "m \<le> 12" "1 \<le> d" "d \<le> days_in_month y m"
    using assms(1) by simp_all
  have d31: "d \<le> 31" using md(4) days_in_month_le[of y m] by simp
  have m2: "m < 10 ^ 2" and d2: "d < 10 ^ 2" using md(2) d31 by simp_all
  define M where "M = padStart 2 (string_of_nat m)"
  define D where "D = padStart 2 (string_of_nat d)"
  have lM: "length M = 2" unfolding M_def using m2 by (rule length_padStart) simp
  have lD: "length D = 2" unfolding D_def using d2 by (rule length_padStart) simp
  obtain m1 m2' where M: "M = [m1, m2']"
    using lM by (cases M; cases "tl M") auto
  obtain d1 d2' where D: "D = [d1, d2']"
    using lD by (cases D; cases "tl D") auto
  have pM: "parse_digits 2 [m1, m2'] = Some m"
    using parse_digits_padStart[OF m2] by (simp add: M_def[symmetric] M)
  have pD: "parse_digits 2 [d1, d2'] = Some d"
    using parse_digits_padStart[OF d2] by (simp add: D_def[symmetric] D)
  have iso: "toISODate (y, m, d) = yearString y @ [CHR ''-'', m1, m2', CHR ''-'', d1, d2']"
    by (simp add: M_def[symmetric] D_def[symmetric] M D)
  have range: "date_le (-271821, 4, 20) (y, m, d)" "date_le (y, m, d) (275760, 9, 13)"
    using assms(2,3) by simp_all
  show ?thesis
    unfolding iso newDateUTC_def parseYear_yearString[OF assms(2,3)]
    using md d31 range by (simp add: pM pD)
qed

lemma toISODate_length:
  assumes "valid_day (y, m, d)" "0 \<le> y" "y \<le> 9999"
  shows "length (toISODate (y, m, d)) = 10"
proof -
  have "m \<le> 12" "d \<le> 31" using assms(1) days_in_month_le[of y m] by simp_all
  then have "m < 10 ^ 2" "d < 10 ^ 2" by simp_all
  moreover have "nat y < 10 ^ 4" using assms(2,3) by simp
  ultimately show ?thesis using assms(2,3) by (simp add: yearString_def length_padStart)
qed

lemma toISODate_reads_back:
  assumes "valid_day t" "0 \<le> fst t" "fst t \<le> 9999"
  shows "length (toISODate t) = 10 \<and> newDateUTC (toISODate t) = Some t"
  using assms toISODate_length[of "fst t" "fst (snd t)" "snd (snd t)"]
    newDateUTC_toISODate[of "fst t" "fst (snd t)" "snd (snd t)"]
  by simp

section \<open>Reading back a printed date with an expanded year\<close>

lemma parseYear_sign_char:
  assumes "c = CHR ''+'' \<or> c = CHR ''-''"
  shows "parseYear (c # s) =
           (case parse_digits 6 (take 6 s) of
              None \<Rightarrow> None
            | Some v \<Rightarrow>
                if c = CHR ''-'' \<and> v = 0 then None
                else Some (if c = CHR ''-'' then - int v else int v, drop 6 s))"
  using assms by (simp add: parseYear_def)

lemma parseYear_signed:
  assumes "y < 0 \<or> 9999 < y" "\<bar>y\<bar> < 1000000"
  shows "parseYear (yearString y @ rest) = Some (y, rest)"
proof -
  define P where "P = padStart 6 (string_of_nat (nat \<bar>y\<bar>))"
  have n: "nat \<bar>y\<bar> < 10 ^ 6" using assms(2) by simp
  have len: "length P = 6" unfolding P_def using n by (rule length_padStart) simp
  have pd: "parse_digits 6 P = Some (nat \<bar>y\<bar>)"
    unfolding P_def using n by (rule parse_digits_padStart) simp
  have tk: "take 6 (P @ rest) = P" "drop 6 (P @ rest) = rest" using len by simp_all
  show ?thesis
  proof (cases "y < 0")
    case True
    then have ys: "yearString y @ rest = CHR ''-'' # (P @ rest)"
      by (simp add: yearString_def P_def)
    have nz: "nat \<bar>y\<bar> \<noteq> 0" using True by simp
    have "parseYear (CHR ''-'' # (P @ rest)) =
           (case parse_digits 6 (take 6 (P @ rest)) of
              None \<Rightarrow> None
            | Some v \<Rightarrow>
                if CHR ''-'' = CHR ''-'' \<and> v = 0 then None
                else Some (if CHR ''-'' = CHR ''-'' then - int v else int v,
                           drop 6 (P @ rest)))"
      by (rule parseYear_sign_char) simp
    also have "\<dots> = Some (y, rest)" unfolding tk pd using True nz by simp
    finally show ?thesis by (simp only: ys)
  next
    case False
    then have big: "9999 < y" using assms(1) by simp
    then have ys: "yearString y @ rest = CHR ''+'' # (P @ rest)"
      by (simp add: yearString_def P_def)
    have "parseYear (CHR ''+'' # (P @ rest)) =
           (case parse_digits 6 (take 6 (P @ rest)) of
              None \<Rightarrow> None
            | Some v \<Rightarrow>
                if CHR ''+'' = CHR ''-'' \<and> v = 0 then None
                else Some (if CHR ''+'' = CHR ''-'' then - int v else int v,
                           drop 6 (P @ rest)))"
      by (rule parseYear_sign_char) simp
    also have "\<dots> = Some (y, rest)" unfolding tk pd using big by simp
    finally show ?thesis by (simp only: ys)
  qed
qed

lemma parseYear_yearString_any:
  assumes "\<bar>y\<bar> < 1000000"
  shows "parseYear (yearString y @ rest) = Some (y, rest)"
proof (cases "0 \<le> y \<and> y \<le> 9999")
  case True
  then show ?thesis by (simp add: parseYear_yearString)
next
  case False
  then have "y < 0 \<or> 9999 < y" by linarith
  then show ?thesis using assms by (rule parseYear_signed)
qed

lemma newDateUTC_in_range:
  "newDateUTC s = Some t \<Longrightarrow> date_le (-271821, 4, 20) t \<and> date_le t (275760, 9, 13)"
  by (auto simp: newDateUTC_def Let_def split: option.splits prod.splits if_splits)

lemma newDateUTC_toISODate_any:
  assumes "valid_day (y, m, d)"
    and "date_le (-271821, 4, 20) (y, m, d)" "date_le (y, m, d) (275760, 9, 13)"
  shows "newDateUTC (toISODate (y, m, d)) = Some (y, m, d)"
proof -
  have md: "1 \<le> m" "m \<le> 12" "1 \<le> d" "d \<le> days_in_month y m"
    using assms(1) by simp_all
  have d31: "d \<le> 31" using md(4) days_in_month_le[of y m] by simp
  have yr: "\<bar>y\<bar> < 1000000" using assms(2,3) by auto
  have m2: "m < 10 ^ 2" and d2: "d < 10 ^ 2" using md(2) d31 by simp_all
  define M where "M = padStart 2 (string_of_nat m)"
  define D where "D = padStart 2 (string_of_nat d)"
  have lM: "length M = 2" unfolding M_def using m2 by (rule length_padStart) simp
  have lD: "length D = 2" unfolding D_def using d2 by (rule length_padStart) simp
  obtain m1 m2' where M: "M = [m1, m2']"
    using lM by (cases M; cases "tl M") auto
  obtain d1 d2' where D: "D = [d1, d2']"
    using lD by (cases D; cases "tl D") auto
  have pM: "parse_digits 2 [m1, m2'] = Some m"
    using parse_digits_padStart[OF m2] by (simp add: M_def[symmetric] M)
  have pD: "parse_digits 2 [d1, d2'] = Some d"
    using parse_digits_padStart[OF d2] by (simp add: D_def[symmetric] D)
  have iso: "toISODate (y, m, d) = yearString y @ [CHR ''-'', m1, m2', CHR ''-'', d1, d2']"
    by (simp add: M_def[symmetric] D_def[symmetric] M D)
  show ?thesis
    unfolding iso newDateUTC_def parseYear_yearString_any[OF yr]
    using md d31 assms(2,3) by (simp add: pM pD)
qed

lemma toISODate_length_any:
  assumes "valid_day (y, m, d)" "\<bar>y\<bar> < 1000000"
  shows "length (toISODate (y, m, d)) = (if 0 \<le> y \<and> y \<le> 9999 then 10 else 13)"
proof -
  have "m \<le> 12" "d \<le> 31" using assms(1) days_in_month_le[of y m] by simp_all
  then have md: "m < 10 ^ 2" "d < 10 ^ 2" by simp_all
  show ?thesis
  proof (cases "0 \<le> y \<and> y \<le> 9999")
    case True
    then have "nat y < 10 ^ 4" by auto
    then show ?thesis using True md by (simp add: yearString_def length_padStart)
  next
    case False
    have "nat \<bar>y\<bar> < 10 ^ 6" using assms(2) by simp
    then show ?thesis using False md by (simp add: yearString_def length_padStart)
  qed
qed

lemma toISODate_reads_back_any:
  assumes "valid_day t" "date_le (-271821, 4, 20) t" "date_le t (275760, 9, 13)"
  shows "newDateUTC (toISODate t) = Some t
       \<and> length (toISODate t) = (if 0 \<le> fst t \<and> fst t \<le> 9999 then 10 else 13)"
proof -
  obtain y m d where t: "t = (y, m, d)" by (cases t)
  have yr: "\<bar>y\<bar> < 1000000" using assms(2,3) by (auto simp: t)
  show ?thesis
    using assms newDateUTC_toISODate_any[of y m d] toISODate_length_any[of y m d] yr
    by (simp add: t)
qed

section \<open>The leave loop as a fold\<close>

lemma leaveLoop_fold:
  "leaveLoop tn d e recs = foldl (\<lambda>r x. markLeaveDay tn x r) recs (daysBetween d e)"
proof (induction tn d e recs rule: leaveLoop.induct)
  case (1 tn d e recs)
  show ?case
  proof (cases "date_le d e")
    case True
    then show ?thesis
      using 1[OF True] by (subst leaveLoop.simps, subst daysBetween.simps) simp
  next
    case False
    then show ?thesis by (subst leaveLoop.simps, subst daysBetween.simps) simp
  qed
qed

lemma leaveLoop_markAll:
  "leaveLoop tn d e recs = markAll tn (map toISODate (daysBetween d e)) recs"
  by (simp add: leaveLoop_fold markAll_def foldl_map markLeaveDay_def Let_def)

lemma synthesizeLeave_markAll:
  "synthesizeLeave us application att
     = markAll (teacherNameOrSystem (List.find (\<lambda>u. user_role u = Teacher) us))
         (map toISODate (leaveDays application)) att"
  by (simp add: synthesizeLeave_def leaveDays_def leaveLoop_markAll markAll_def Let_def
        split: option.splits)

lemma markAll_Nil: "markAll tn [] att = att"
  by (simp add: markAll_def)

lemma markAll_Cons:
  "markAll tn (ds # dss) att =
     markAll tn dss (if \<not> hasLeaveRecordForDay ds att then att @ [leaveRecord ds tn] else att)"
  by (simp add: markAll_def)

lemma has_iff_leaveDates: "hasLeaveRecordForDay ds att \<longleftrightarrow> ds \<in> set (leaveDates att)"
  by (auto simp: hasLeaveRecordForDay_def some_def leaveDates_def list_ex_iff)

lemma leaveDates_snoc_leave: "leaveDates (att @ [leaveRecord ds tn]) = leaveDates att @ [ds]"
  by (simp add: leaveDates_def leaveRecord_def)

lemma markAll_shape:
  "\<exists>added. markAll tn dss att = att @ added
     \<and> set added \<subseteq> (\<lambda>ds. leaveRecord ds tn) ` {ds \<in> set dss. \<not> hasLeaveRecordForDay ds att}"
proof (induction dss arbitrary: att)
  case Nil
  show ?case by (simp add: markAll_Nil)
next
  case (Cons ds dss)
  show ?case
  proof (cases "hasLeaveRecordForDay ds att")
    case True
    from Cons[of att] obtain added where
      "markAll tn dss att = att @ added"
      "set added \<subseteq> (\<lambda>ds. leaveRecord ds tn) ` {ds \<in> set dss. \<not> hasLeaveRecordForDay ds att}"
      by blast
    then show ?thesis using True by (auto simp: markAll_Cons)
  next
    case False
    define att1 where "att1 = att @ [leaveRecord ds tn]"
    from Cons[of att1] obtain added where a:
      "markAll tn dss att1 = att1 @ added"
      "set added \<subseteq> (\<lambda>ds. leaveRecord ds tn) ` {ds \<in> set dss. \<not> hasLeaveRecordForDay ds att1}"
      by blast
    have mono: "\<not> hasLeaveRecordForDay x att1 \<Longrightarrow> \<not> hasLeaveRecordForDay x att" for x
      by (simp add: has_iff_leaveDates att1_def leaveDates_snoc_leave)
    have "markAll tn (ds # dss) att = att @ (leaveRecord ds tn # added)"
      using False a(1) by (simp add: markAll_Cons att1_def)
    moreover have "set (leaveRecord ds tn # added)
        \<subseteq> (\<lambda>ds. leaveRecord ds tn) ` {x \<in> set (ds # dss). \<not> hasLeaveRecordForDay x att}"
      using a(2) False mono by auto
    ultimately show ?thesis by blast
  qed
qed

lemma markAll_has:
  "hasLeaveRecordForDay x (markAll tn dss att) \<longleftrightarrow> hasLeaveRecordForDay x att \<or> x \<in> set dss"
proof (induction dss arbitrary: att)
  case Nil
  show ?case by (simp add: markAll_Nil)
next
  case (Cons ds dss)
  define att1 where
    "att1 = (if \<not> hasLeaveRecordForDay ds att then att @ [leaveRecord ds tn] else att)"
  have "hasLeaveRecordForDay x (markAll tn (ds # dss) att)
          \<longleftrightarrow> hasLeaveRecordForDay x att1 \<or> x \<in> set dss"
    using Cons[of att1] by (simp add: markAll_Cons att1_def)
  also have "hasLeaveRecordForDay x att1 \<longleftrightarrow> hasLeaveRecordForDay x att \<or> x = ds"
    by (auto simp: att1_def has_iff_leaveDates leaveDates_snoc_leave)
  finally show ?case by auto
qed

lemma markAll_fixed:
  "(\<forall>ds \<in> set dss. hasLeaveRecordForDay ds att) \<Longrightarrow> markAll tn dss att = att"
  by (induction dss) (simp_all add: markAll_Nil markAll_Cons)

lemma markAll_idem: "markAll tn' dss (markAll tn dss att) = markAll tn dss att"
  by (rule markAll_fixed) (simp add: markAll_has)

lemma markAll_distinct:
  "distinct (leaveDates att) \<Longrightarrow> distinct (leaveDates (markAll tn dss att))"
proof (induction dss arbitrary: att)
  case Nil
  then show ?case by (simp add: markAll_Nil)
next
  case (Cons ds dss)
  show ?case
  proof (cases "hasLeaveRecordForDay ds att")
    case True
    then show ?thesis using Cons by (simp add: markAll_Cons)
  next
    case False
    then have "distinct (leaveDates (att @ [leaveRecord ds tn]))"
      using Cons.prems by (simp add: leaveDates_snoc_leave has_iff_leaveDates)
    then show ?thesis using False Cons.IH by (simp add: markAll_Cons)
  qed
qed

lemma markAll_closed:
  "distinct dss \<Longrightarrow>
   markAll tn dss att
     = att @ map (\<lambda>ds. leaveRecord ds tn) (filter (\<lambda>ds. \<not> hasLeaveRecordForDay ds att) dss)"
proof (induction dss arbitrary: att)
  case Nil
  show ?case by (simp add: markAll_Nil)
next
  case (Cons ds dss)
  then have d: "distinct dss" and nin: "ds \<notin> set dss" by simp_all
  show ?case
  proof (cases "hasLeaveRecordForDay ds att")
    case True
    then show ?thesis using Cons.IH[OF d, of att] by (simp add: markAll_Cons)
  next
    case False
    define att1 where "att1 = att @ [leaveRecord ds tn]"
    have same: "x \<in> set dss \<Longrightarrow> hasLeaveRecordForDay x att1 = hasLeaveRecordForDay x att" for x
      using nin by (auto simp: has_iff_leaveDates att1_def leaveDates_snoc_leave)
    have "filter (\<lambda>x. \<not> hasLeaveRecordForDay x att1) dss
        = filter (\<lambda>x. \<not> hasLeaveRecordForDay x att) dss"
      by (rule filter_cong) (simp_all add: same)
    then show ?thesis
      using False Cons.IH[OF d, of att1] by (simp add: markAll_Cons att1_def)
  qed
qed

section \<open>Closed forms of the leave handler\<close>

lemma leave_unknown_application:
  "findIndex (\<lambda>app. leave_id app = aid) (leaveApplications st) = None
   \<Longrightarrow> handleUpdateLeaveStatus aid status comment st = st"
  by (simp add: handleUpdateLeaveStatus_def)

lemma leave_no_synthesis:
  assumes "findIndex (\<lambda>app. leave_id app = aid) (leaveApplications st) = Some i"
    and "status \<noteq> Approved
         \<or> findIndex (\<lambda>s. student_id s = leave_studentId (leaveApplications st ! i)) (students st)
             = None"
  shows "handleUpdateLeaveStatus aid status comment st
         = st\<lparr>leaveApplications := (leaveApplications st)[i :=
                (leaveApplications st ! i)\<lparr>leave_status := status, teacherComment := comment\<rparr>]\<rparr>"
  using assms by (auto simp: handleUpdateLeaveStatus_def Let_def)

lemma leave_synthesis:
  assumes "findIndex (\<lambda>app. leave_id app = aid) (leaveApplications st) = Some i"
    and "findIndex (\<lambda>s. student_id s = leave_studentId (leaveApplications st ! i)) (students st)
           = Some j"
  shows "handleUpdateLeaveStatus aid Approved comment st
         = st\<lparr>leaveApplications := (leaveApplications st)[i :=
                (leaveApplications st ! i)\<lparr>leave_status := Approved, teacherComment := comment\<rparr>],
              students := (students st)[j := (students st ! j)\<lparr>attendance :=
                synthesizeLeave (users st) (leaveApplications st ! i)
                  (attendance (students st ! j))\<rparr>]\<rparr>"
  using assms by (simp add: handleUpdateLeaveStatus_def Let_def)

lemma leave_students_cases:
  obtains (same) "students (handleUpdateLeaveStatus aid status comment st) = students st"
  | (synth) i j where
      "findIndex (\<lambda>app. leave_id app = aid) (leaveApplications st) = Some i"
      "findIndex (\<lambda>s. student_id s = leave_studentId (leaveApplications st ! i)) (students st)
         = Some j"
      "status = Approved"
      "students (handleUpdateLeaveStatus aid status comment st)
         = (students st)[j := (students st ! j)\<lparr>attendance :=
              synthesizeLeave (users st) (leaveApplications st ! i)
                (attendance (students st ! j))\<rparr>]"
proof (cases "findIndex (\<lambda>app. leave_id app = aid) (leaveApplications st)")
  case None
  then show ?thesis using same by (simp add: leave_unknown_application)
next
  case (Some i)
  show ?thesis
  proof (cases "status \<noteq> Approved
         \<or> findIndex (\<lambda>s. student_id s = leave_studentId (leaveApplications st ! i)) (students st)
             = None")
    case True
    then show ?thesis using same leave_no_synthesis[OF Some True] by simp
  next
    case False
    then obtain j where j: "findIndex (\<lambda>s. student_id s = leave_studentId (leaveApplications st ! i))
        (students st) = Some j" and a: "status = Approved" by auto
    show ?thesis using synth[OF Some j a] leave_synthesis[OF Some j] a by simp
  qed
qed

lemma leave_frame_other:
  "users (handleUpdateLeaveStatus aid status comment st) = users st"
  "exams (handleUpdateLeaveStatus aid status comment st) = exams st"
  "examSubmissions (handleUpdateLeaveStatus aid status comment st) = examSubmissions st"
  "currentUser (handleUpdateLeaveStatus aid status comment st) = currentUser st"
  "isLoginView (handleUpdateLeaveStatus aid status comment st) = isLoginView st"
  "authError (handleUpdateLeaveStatus aid status comment st) = authError st"
  by (simp_all add: handleUpdateLeaveStatus_def Let_def split: option.splits)

lemma synthesizeLeave_shape:
  "\<exists>added. synthesizeLeave us application att = att @ added
     \<and> (\<forall>r \<in> set added. rec_status r = Present \<and> rec_subject r = ''On Approved Leave'')"
proof -
  obtain added where "synthesizeLeave us application att = att @ added"
    and "set added \<subseteq> (\<lambda>ds. leaveRecord ds
            (teacherNameOrSystem (List.find (\<lambda>u. user_role u = Teacher) us)))
          ` {ds \<in> set (map toISODate (leaveDays application)). \<not> hasLeaveRecordForDay ds att}"
    unfolding synthesizeLeave_markAll using markAll_shape by blast
  then show ?thesis by (intro exI[of _ added]) (auto simp: leaveRecord_def)
qed

lemma leave_student_shape:
  assumes "j < length (students st)"
  shows "\<exists>added. students (handleUpdateLeaveStatus aid status comment st) ! j
            = (students st ! j)\<lparr>attendance := attendance (students st ! j) @ added\<rparr>
          \<and> (\<forall>r \<in> set added. rec_status r = Present \<and> rec_subject r = ''On Approved Leave'')"
proof (cases rule: leave_students_cases[of aid status comment st])
  case same
  then show ?thesis by (intro exI[of _ "[]"]) simp
next
  case (synth i k)
  show ?thesis
  proof (cases "j = k")
    case False
    then show ?thesis using synth(4) by (intro exI[of _ "[]"]) simp
  next
    case True
    obtain added where "synthesizeLeave (users st) (leaveApplications st ! i)
        (attendance (students st ! k)) = attendance (students st ! k) @ added"
      and "\<forall>r \<in> set added. rec_status r = Present \<and> rec_subject r = ''On Approved Leave''"
      using synthesizeLeave_shape by blast
    then show ?thesis using True assms synth(4) by (intro exI[of _ added]) simp
  qed
qed

section \<open>Attendance percentage under appended Present records\<close>

lemma presentCount_le: "presentCount att \<le> length att"
  by (simp add: presentCount_def)

lemma presentCount_append_present:
  "\<forall>r \<in> set added. rec_status r = Present
   \<Longrightarrow> presentCount (att @ added) = presentCount att + length added"
  by (simp add: presentCount_def)

lemma ratio_mono:
  fixes p t k :: nat
  assumes "p \<le> t" "0 < t"
  shows "(of_nat p :: rat) / of_nat t \<le> of_nat (p + k) / of_nat (t + k)"
proof -
  have "p * k \<le> t * k" using assms(1) by simp
  then have "p * (t + k) \<le> (p + k) * t" by (simp add: algebra_simps)
  then have "(of_nat (p * (t + k)) :: rat) \<le> of_nat ((p + k) * t)" by (simp only: of_nat_le_iff)
  then have "(of_nat p :: rat) * of_nat (t + k) \<le> of_nat (p + k) * of_nat t"
    by (simp only: of_nat_mult)
  moreover have "(0::rat) < of_nat t" "(0::rat) < of_nat (t + k)" using assms(2) by simp_all
  ultimately show ?thesis by (simp add: frac_le_eq divide_le_0_iff mult.commute field_simps)
qed

lemma exactPercentage_append_present:
  assumes "\<forall>r \<in> set added. rec_status r = Present"
  shows "exactPercentage att \<le> exactPercentage (att @ added)"
proof (cases "att = []")
  case True
  show ?thesis
  proof (cases "added = []")
    case True
    with \<open>att = []\<close> show ?thesis by simp
  next
    case False
    then have "presentCount added = length added" "0 < length added"
      using presentCount_append_present[OF assms, of "[]"] by (simp_all add: presentCount_def)
    then show ?thesis using True False by (simp add: exactPercentage_def)
  qed
next
  case False
  then have t: "0 < length att" by simp
  have "(of_nat (presentCount att) :: rat) / of_nat (length att)
        \<le> of_nat (presentCount att + length added) / of_nat (length att + length added)"
    using presentCount_le t by (rule ratio_mono)
  then have "100 * ((of_nat (presentCount att) :: rat) / of_nat (length att))
        \<le> 100 * (of_nat (presentCount att + length added) / of_nat (length att + length added))"
    by (rule mult_left_mono) simp
  then show ?thesis
    using False by (simp add: exactPercentage_def presentCount_append_present[OF assms])
qed

lemma attendancePercentage_append_present:
  assumes "\<forall>r \<in> set added. rec_status r = Present"
  shows "attendancePercentage att \<le> attendancePercentage (att @ added)"
proof (cases "att = []")
  case True
  show ?thesis
  proof (cases "added = []")
    case True
    with \<open>att = []\<close> show ?thesis by simp
  next
    case False
    then have pc: "presentCount added = length added" and pos: "0 < length added"
      using presentCount_append_present[OF assms, of "[]"] by (simp_all add: presentCount_def)
    have "attendancePercentage added = js_mul (roundDouble 1) 100"
      using pc pos by (simp add: attendancePercentage_def js_div_def presentCount_def)
    then show ?thesis using True by (simp add: percent_one attendancePercentage_def)
  qed
next
  case False
  then have t: "0 < length att" by simp
  have r: "(of_nat (presentCount att) :: rat) / of_nat (length att)
        \<le> of_nat (presentCount att + length added) / of_nat (length att + length added)"
    using presentCount_le t by (rule ratio_mono)
  have "js_mul (roundDouble (of_nat (presentCount att) / of_nat (length att))) 100
      \<le> js_mul (roundDouble (of_nat (presentCount att + length added)
                               / of_nat (length att + length added))) 100"
    using _ r by (rule percent_mono) simp
  then show ?thesis
    using t presentCount_append_present[OF assms, of att]
    by (simp add: attendancePercentage_def js_div_def presentCount_def)
qed

section \<open>Approving twice\<close>

lemma leaveDays_update:
  "leaveDays (application\<lparr>leave_status := s, teacherComment := c\<rparr>) = leaveDays application"
  by (simp add: leaveDays_def cong: option.case_cong)

lemma synthesizeLeave_update:
  "synthesizeLeave us (application\<lparr>leave_status := s, teacherComment := c\<rparr>) att
     = synthesizeLeave us application att"
  by (simp add: synthesizeLeave_markAll leaveDays_update)

lemma synthesizeLeave_idem:
  "synthesizeLeave us application (synthesizeLeave us application att)
     = synthesizeLeave us application att"
  by (simp add: synthesizeLeave_markAll markAll_idem)

lemma leave_reapprove:
  "handleUpdateLeaveStatus aid Approved comment'
     (handleUpdateLeaveStatus aid Approved comment st)
   = (handleUpdateLeaveStatus aid Approved comment st)
       \<lparr>leaveApplications := leaveApplications (handleUpdateLeaveStatus aid Approved comment' st)\<rparr>"
proof (cases "findIndex (\<lambda>app. leave_id app = aid) (leaveApplications st)")
  case None
  then show ?thesis by (simp add: leave_unknown_application)
next
  case (Some i)
  note ib = findIndex_Some_D[OF Some]
  define app where "app = leaveApplications st ! i"
  define upd where "upd = app\<lparr>leave_status := Approved, teacherComment := comment\<rparr>"
  define upd' where "upd' = app\<lparr>leave_status := Approved, teacherComment := comment'\<rparr>"
  have upd_upd: "upd\<lparr>leave_status := Approved, teacherComment := comment'\<rparr> = upd'"
    by (simp add: upd_def upd'_def)
  show ?thesis
  proof (cases "findIndex (\<lambda>s. student_id s = leave_studentId app) (students st)")
    case None
    define st1 where "st1 = st\<lparr>leaveApplications := (leaveApplications st)[i := upd]\<rparr>"
    have h1: "handleUpdateLeaveStatus aid Approved comment st = st1"
      using leave_no_synthesis[OF Some, of Approved comment] None
      by (simp add: app_def upd_def st1_def)
    have h1': "handleUpdateLeaveStatus aid Approved comment' st
                 = st\<lparr>leaveApplications := (leaveApplications st)[i := upd']\<rparr>"
      using leave_no_synthesis[OF Some, of Approved comment'] None
      by (simp add: app_def upd'_def)
    have fi: "findIndex (\<lambda>app. leave_id app = aid) (leaveApplications st1) = Some i"
      using ib Some by (simp add: st1_def findIndex_list_update upd_def app_def)
    have nth: "leaveApplications st1 ! i = upd" using ib by (simp add: st1_def)
    have sid: "leave_studentId (leaveApplications st1 ! i) = leave_studentId app"
      by (simp add: nth upd_def)
    have studs: "students st1 = students st" by (simp add: st1_def)
    have fs: "findIndex (\<lambda>s. student_id s = leave_studentId (leaveApplications st1 ! i))
                (students st1) = None"
      using None by (simp only: sid studs)
    have "handleUpdateLeaveStatus aid Approved comment' st1
            = st1\<lparr>leaveApplications := (leaveApplications st1)[i := upd']\<rparr>"
      using leave_no_synthesis[OF fi, of Approved comment'] fs by (simp add: nth upd_upd)
    then show ?thesis by (simp add: h1 h1' st1_def)
  next
    case (Some j)
    note jb = findIndex_Some_D[OF Some]
    define s where "s = students st ! j"
    define L where "L = synthesizeLeave (users st) app (attendance s)"
    define st1 where "st1 = st\<lparr>leaveApplications := (leaveApplications st)[i := upd],
                                students := (students st)[j := s\<lparr>attendance := L\<rparr>]\<rparr>"
    have h1: "handleUpdateLeaveStatus aid Approved comment st = st1"
      using leave_synthesis[OF \<open>findIndex _ (leaveApplications st) = Some i\<close>, of j comment] Some
      by (simp add: app_def upd_def st1_def s_def L_def)
    have h1': "handleUpdateLeaveStatus aid Approved comment' st
                 = st\<lparr>leaveApplications := (leaveApplications st)[i := upd'],
                      students := (students st)[j := s\<lparr>attendance := L\<rparr>]\<rparr>"
      using leave_synthesis[OF \<open>findIndex _ (leaveApplications st) = Some i\<close>, of j comment'] Some
      by (simp add: app_def upd'_def s_def L_def)
    have fi: "findIndex (\<lambda>app. leave_id app = aid) (leaveApplications st1) = Some i"
      using ib \<open>findIndex _ (leaveApplications st) = Some i\<close>
      by (simp add: st1_def findIndex_list_update upd_def app_def)
    have nth: "leaveApplications st1 ! i = upd" using ib by (simp add: st1_def)
    have sid: "leave_studentId (leaveApplications st1 ! i) = leave_studentId app"
      by (simp add: nth upd_def)
    have studs: "students st1 = (students st)[j := s\<lparr>attendance := L\<rparr>]"
      by (simp add: st1_def)
    have "findIndex (\<lambda>s. student_id s = leave_studentId app)
            ((students st)[j := s\<lparr>attendance := L\<rparr>])
          = findIndex (\<lambda>s. student_id s = leave_studentId app) (students st)"
      using jb by (intro findIndex_list_update) (simp_all add: s_def)
    then have fs: "findIndex (\<lambda>s. student_id s = leave_studentId (leaveApplications st1 ! i))
                (students st1) = Some j"
      using Some by (simp only: sid studs)
    have nths: "students st1 ! j = s\<lparr>attendance := L\<rparr>" using jb by (simp add: st1_def)
    have again: "synthesizeLeave (users st1) upd L = L"
      by (simp add: st1_def upd_def synthesizeLeave_update L_def synthesizeLeave_idem)
    have "handleUpdateLeaveStatus aid Approved comment' st1
            = st1\<lparr>leaveApplications := (leaveApplications st1)[i := upd'],
                  students := (students st1)[j := s\<lparr>attendance := L\<rparr>]\<rparr>"
      using leave_synthesis[OF fi, of j comment'] fs by (simp add: nth nths upd_upd again)
    then show ?thesis by (simp add: h1 h1' st1_def)
  qed
qed

lemma leave_reapprove_same:
  "handleUpdateLeaveStatus aid Approved comment (handleUpdateLeaveStatus aid Approved comment st)
   = handleUpdateLeaveStatus aid Approved comment st"
  by (simp add: leave_reapprove)

lemma leave_keeps_distinct:
  assumes "j < length (students st)"
    and "distinct (leaveDates (attendance (students st ! j)))"
  shows "distinct (leaveDates (attendance
           (students (handleUpdateLeaveStatus aid status comment st) ! j)))"
proof (cases rule: leave_students_cases[of aid status comment st])
  case same
  then show ?thesis using assms(2) by simp
next
  case (synth i k)
  show ?thesis
  proof (cases "j = k")
    case False
    then show ?thesis using synth(4) assms(2) by simp
  next
    case True
    then show ?thesis
      using synth(4) assms by (simp add: synthesizeLeave_markAll markAll_distinct)
  qed
qed

section \<open>The records an approval appends\<close>

lemma teacherNameOrSystem_first:
  "teacherNameOrSystem (List.find (\<lambda>u. user_role u = Teacher) us)
     = (case firstTeacherName us of
          None \<Rightarrow> ''System''
        | Some n \<Rightarrow> if n = [] then ''System'' else n)"
  by (simp add: teacherNameOrSystem_def firstTeacherName_def split: option.splits)

lemma filter_eq_singleton:
  "distinct xs \<Longrightarrow> x \<in> set xs \<Longrightarrow> inj_on f (set xs)
   \<Longrightarrow> filter (\<lambda>y. f y = f x) xs = [x]"
proof -
  assume d: "distinct xs" and x: "x \<in> set xs" and inj: "inj_on f (set xs)"
  have "filter (\<lambda>y. f y = f x) xs = filter (\<lambda>y. y = x) xs"
  proof (rule filter_cong[OF refl])
    fix y assume "y \<in> set xs"
    then show "(f y = f x) = (y = x)" using inj x by (auto dest: inj_onD)
  qed
  also have "\<dots> = [x]" using d x
  proof (induction xs)
    case Nil
    then show ?case by simp
  next
    case (Cons a xs)
    show ?case
    proof (cases "a = x")
      case True
      then have "x \<notin> set xs" using Cons.prems(1) by simp
      then have "filter (\<lambda>y. y = x) xs = []" by (auto simp: filter_empty_conv)
      then show ?thesis using True by simp
    next
      case False
      then show ?thesis using Cons by simp
    qed
  qed
  finally show ?thesis .
qed

lemma synthesizeLeave_closed:
  assumes "newDateUTC (startDate application) = Some startD"
    and "newDateUTC (endDate application) = Some endD"
  shows "synthesizeLeave us application att
     = att @ map (\<lambda>d. leaveRecord (toISODate d)
                     (teacherNameOrSystem (List.find (\<lambda>u. user_role u = Teacher) us)))
               (filter (\<lambda>d. \<not> hasLeaveRecordForDay (toISODate d) att)
                  (daysBetween startD endD))"
proof -
  have v: "valid_day startD" using assms(1) by (rule newDateUTC_valid)
  have days: "leaveDays application = daysBetween startD endD"
    using assms by (simp add: leaveDays_def)
  show ?thesis
    unfolding synthesizeLeave_markAll days
    by (simp add: markAll_closed[OF daysBetween_iso_distinct[OF v]] filter_map comp_def)
qed

section \<open>The days of an application\<close>

lemma leaveDays_set:
  "set (leaveDays application)
     = {d. \<exists>startD endD. newDateUTC (startDate application) = Some startD
             \<and> newDateUTC (endDate application) = Some endD
             \<and> valid_day d \<and> date_le startD d \<and> date_le d endD}"
proof (cases "newDateUTC (startDate application)")
  case None
  then show ?thesis by (simp add: leaveDays_def)
next
  case (Some s)
  note s = Some
  show ?thesis
  proof (cases "newDateUTC (endDate application)")
    case None
    then show ?thesis using s by (simp add: leaveDays_def)
  next
    case (Some e)
    have "valid_day s" using s by (rule newDateUTC_valid)
    then show ?thesis using s Some by (simp add: leaveDays_def daysBetween_set)
  qed
qed

lemma leaveDays_distinct:
  "distinct (leaveDays application)" "distinct (map toISODate (leaveDays application))"
proof -
  have "distinct (leaveDays application) \<and> distinct (map toISODate (leaveDays application))"
  proof (cases "newDateUTC (startDate application)")
    case None
    then show ?thesis by (simp add: leaveDays_def)
  next
    case (Some s)
    then have v: "valid_day s" by (rule newDateUTC_valid)
    show ?thesis
      using Some daysBetween_distinct[OF v] daysBetween_iso_distinct[OF v]
      by (simp add: leaveDays_def split: option.splits)
  qed
  then show "distinct (leaveDays application)"
    "distinct (map toISODate (leaveDays application))" by simp_all
qed

lemma leaveDays_reads_back:
  assumes "d \<in> set (leaveDays application)"
  shows "newDateUTC (toISODate d) = Some d
       \<and> length (toISODate d) = (if 0 \<le> fst d \<and> fst d \<le> 9999 then 10 else 13)"
proof -
  from assms obtain startD endD where
    s: "newDateUTC (startDate application) = Some startD"
    and e: "newDateUTC (endDate application) = Some endD"
    and d: "valid_day d" "date_le startD d" "date_le d endD"
    unfolding leaveDays_set by blast
  have "date_le (-271821, 4, 20) d"
    using newDateUTC_in_range[OF s] d(2) date_le_trans by blast
  moreover have "date_le d (275760, 9, 13)"
    using newDateUTC_in_range[OF e] d(3) date_le_trans by blast
  ultimately show ?thesis using d(1) by (intro toISODate_reads_back_any)
qed

lemma synthesizeLeave_days:
  "synthesizeLeave us application att
     = att @ map (\<lambda>d. leaveRecord (toISODate d)
                     (teacherNameOrSystem (List.find (\<lambda>u. user_role u = Teacher) us)))
               (filter (\<lambda>d. \<not> hasLeaveRecordForDay (toISODate d) att) (leaveDays application))"
  unfolding synthesizeLeave_markAll
  by (simp add: markAll_closed[OF leaveDays_distinct(2)] filter_map comp_def)

section \<open>Exam scores\<close>

lemma countCorrect_fold_le:
  "fold (\<lambda>q correctAnswers.
           if Some (correctAnswer q) = ans (question_id q) then correctAnswers + 1
           else correctAnswers) qs a \<le> a + length qs"
proof (induction qs arbitrary: a)
  case Nil
  show ?case by simp
next
  case (Cons q qs)
  show ?case using Cons[of "a + 1"] Cons[of a] by simp
qed

lemma countCorrect_le: "countCorrect qs ans \<le> length qs"
  using countCorrect_fold_le[of ans qs 0] by (simp add: countCorrect_def)

lemma examScore_range: "0 \<le> examScore qs ans \<and> examScore qs ans \<le> 100"
proof (cases "length qs > 0")
  case False
  then show ?thesis by (simp add: examScore_def Math_round_def)
next
  case True
  define x where "x = (of_nat (countCorrect qs ans) :: rat) / of_nat (length qs)"
  have x: "0 \<le> x" "x \<le> 1"
    using True countCorrect_le[of qs ans] by (simp_all add: x_def)
  have lo: "0 \<le> js_mul (roundDouble x) 100"
    using percent_mono[of 0 x] x(1) by (simp add: percent_zero)
  have hi: "js_mul (roundDouble x) 100 \<le> 100"
    using percent_mono[of x 1] x by (simp add: percent_one)
  have s: "examScore qs ans = Math_round (js_mul (roundDouble x) 100)"
    using True by (simp add: examScore_def js_div_def x_def Let_def)
  have "0 \<le> \<lfloor>js_mul (roundDouble x) 100 + 1 / 2\<rfloor>" using lo by simp
  moreover have "\<lfloor>js_mul (roundDouble x) 100 + 1 / 2\<rfloor> \<le> 100"
  proof -
    have "js_mul (roundDouble x) 100 + 1 / 2 < 101" using hi by simp
    then have "\<lfloor>js_mul (roundDouble x) 100 + 1 / 2\<rfloor> < 101" by (simp add: floor_less_iff)
    then show ?thesis by simp
  qed
  ultimately show ?thesis by (simp add: s Math_round_def)
qed

lemma examScore_no_questions: "examScore [] ans = 0"
  by (simp add: examScore_def countCorrect_def Math_round_def floor_eq_iff)

lemma examScore_three_of_four: "examScore (map ex_question [0..<4]) (ex_answers 3 4) = 75"
  by code_simp


lemma examScore_three_of_four_any:
  assumes "length qs = 4" "countCorrect qs ans = 3"
  shows "examScore qs ans = 75"
proof -
  have "examScore qs ans = Math_round (js_mul (roundDouble (3 / 4)) 100)"
    using assms by (simp add: examScore_def js_div_def)
  also have "\<dots> = 75" by (simp add: percent_three_quarters Math_round_def floor_eq_iff)
  finally show ?thesis .
qed

section \<open>The claims\<close>

text \<open>
  Claim C1, as the code has it. Approving an application a second time (with the same
  or another comment), or running the synthesis again on its own result, appends no
  attendance record: the students are exactly those after the first approval. The
  handler never creates a second On Approved Leave record for a date: a student
  whose leave records had pairwise different dates before the call has them after it.
  It does not remove duplicates that were there before.
\<close>

theorem leave_approval_idempotent:
  "handleUpdateLeaveStatus aid Approved comment (handleUpdateLeaveStatus aid Approved comment st)
     = handleUpdateLeaveStatus aid Approved comment st
   \<and> students (handleUpdateLeaveStatus aid Approved comment'
         (handleUpdateLeaveStatus aid Approved comment st))
     = students (handleUpdateLeaveStatus aid Approved comment st)
   \<and> synthesizeLeave us application (synthesizeLeave us application att)
     = synthesizeLeave us application att
   \<and> (j < length (students st) \<and> distinct (leaveDates (attendance (students st ! j)))
      \<longrightarrow> distinct (leaveDates (attendance
            (students (handleUpdateLeaveStatus aid Approved comment st) ! j))))"
  using leave_reapprove_same[of aid comment st] leave_reapprove[of aid comment' comment st]
    synthesizeLeave_idem[of us application att] leave_keeps_distinct[of j st aid Approved comment]
  by simp

theorem leave_approval_idempotent_witness:
  "leaveDates (attendance (students (handleUpdateLeaveStatus ''leave-1'' Approved None
      (handleUpdateLeaveStatus ''leave-1'' Approved None
        (ex_leave_state [ex_teacherUser]
           [ex_student [ex_record ''2024-01-11'' ''On Approved Leave'' Present]]
           [ex_leave ''user-1'' ''2024-01-10'' ''2024-01-12'']))) ! 0))
     = [''2024-01-11'', ''2024-01-10'', ''2024-01-12'']
   \<and> distinct (leaveDates (attendance (students (handleUpdateLeaveStatus ''leave-1'' Approved None
        (ex_leave_state [ex_teacherUser]
           [ex_student [ex_record ''2024-01-11'' ''On Approved Leave'' Present]]
           [ex_leave ''user-1'' ''2024-01-10'' ''2024-01-12''])) ! 0)))"
proof -
  let ?st = "ex_leave_state [ex_teacherUser]
           [ex_student [ex_record ''2024-01-11'' ''On Approved Leave'' Present]]
           [ex_leave ''user-1'' ''2024-01-10'' ''2024-01-12'']"
  note T = leave_approval_idempotent[of "''leave-1''" None ?st None "[]" "ex_leave ''x'' ''y'' ''z''" "[]" 0]
  have once: "leaveDates (attendance (students (handleUpdateLeaveStatus ''leave-1'' Approved None ?st) ! 0))
      = [''2024-01-11'', ''2024-01-10'', ''2024-01-12'']"
    by code_simp
  have pre: "0 < length (students ?st)
      \<and> distinct (leaveDates (attendance (students ?st ! 0)))"
    by (simp add: ex_leave_state_def ex_student_def leaveDates_def ex_record_def)
  from T pre once show ?thesis by simp
qed

text \<open>
  The claim as stated fails on a state whose student already has two leave records for
  one date: they are both still there after the approval.
\<close>

theorem leave_duplicates_counterexample:
  "leaveDates (attendance (students (handleUpdateLeaveStatus ''leave-1'' Approved None
      (ex_leave_state [ex_teacherUser]
         [ex_student [ex_record ''2024-01-10'' ''On Approved Leave'' Present,
                      ex_record ''2024-01-10'' ''On Approved Leave'' Present]]
         [ex_leave ''user-1'' ''2024-01-10'' ''2024-01-10''])) ! 0))
   = [''2024-01-10'', ''2024-01-10'']"
  by code_simp

text \<open>
  Claim C2, as the code has it. When the application is found and its student is found,
  approving sets the application's status to Approved and its comment to the given
  one (whether or not the dates parse), and the student's attendance becomes the old
  sequence followed by appended records such that: every appended record is the leave
  record of a UTC day between start and end (inclusive) that had no leave record
  before; every such day has exactly one appended record with its date; and the number
  of appended records is the number of such days (none when a date does not parse). A
  leave record has the date as \<open>toISOString\<close> prints it, which reads back as the day:
  the ten characters YYYY-MM-DD for a year from 0 to 9999, and thirteen characters (a
  sign and a six-digit year) otherwise. It has subject On Approved Leave, timestamp
  All Day, status Present, and as teacher name the name of the first Teacher-role user
  if there is one and the name is not empty, else System.
\<close>

theorem leave_approval_synthesis:
  assumes "findIndex (\<lambda>app. leave_id app = aid) (leaveApplications st) = Some i"
    and "findIndex (\<lambda>s. student_id s = leave_studentId (leaveApplications st ! i)) (students st)
           = Some j"
  shows "leave_status (leaveApplications (handleUpdateLeaveStatus aid Approved comment st) ! i)
           = Approved
       \<and> teacherComment (leaveApplications (handleUpdateLeaveStatus aid Approved comment st) ! i)
           = comment
       \<and> (\<exists>added.
            attendance (students (handleUpdateLeaveStatus aid Approved comment st) ! j)
              = attendance (students st ! j) @ added
          \<and> (\<forall>r \<in> set added. \<exists>d.
                (\<exists>startD endD.
                    newDateUTC (startDate (leaveApplications st ! i)) = Some startD
                  \<and> newDateUTC (endDate (leaveApplications st ! i)) = Some endD
                  \<and> valid_day d \<and> date_le startD d \<and> date_le d endD)
                \<and> \<not> hasLeaveRecordForDay (toISODate d) (attendance (students st ! j))
                \<and> r = \<lparr>rec_date = toISODate d, rec_subject = ''On Approved Leave'',
                        rec_teacherName =
                          (case firstTeacherName (users st) of
                             None \<Rightarrow> ''System''
                           | Some n \<Rightarrow> if n = [] then ''System'' else n),
                        rec_timestamp = ''All Day'', rec_status = Present\<rparr>
                \<and> newDateUTC (rec_date r) = Some d
                \<and> length (rec_date r) = (if 0 \<le> fst d \<and> fst d \<le> 9999 then 10 else 13))
          \<and> (\<forall>d. (\<exists>startD endD.
                    newDateUTC (startDate (leaveApplications st ! i)) = Some startD
                  \<and> newDateUTC (endDate (leaveApplications st ! i)) = Some endD
                  \<and> valid_day d \<and> date_le startD d \<and> date_le d endD)
                \<and> \<not> hasLeaveRecordForDay (toISODate d) (attendance (students st ! j))
                \<longrightarrow> length (filter (\<lambda>r. rec_date r = toISODate d) added) = 1)
          \<and> length added
              = card {d. (\<exists>startD endD.
                    newDateUTC (startDate (leaveApplications st ! i)) = Some startD
                  \<and> newDateUTC (endDate (leaveApplications st ! i)) = Some endD
                  \<and> valid_day d \<and> date_le startD d \<and> date_le d endD)
                \<and> \<not> hasLeaveRecordForDay (toISODate d) (attendance (students st ! j))})"
proof -
  define app where "app = leaveApplications st ! i"
  define old where "old = attendance (students st ! j)"
  define tn where "tn = teacherNameOrSystem (List.find (\<lambda>u. user_role u = Teacher) (users st))"
  define inRange where "inRange = (\<lambda>d. \<exists>startD endD.
                    newDateUTC (startDate app) = Some startD
                  \<and> newDateUTC (endDate app) = Some endD
                  \<and> valid_day d \<and> date_le startD d \<and> date_le d endD)"
  define days where "days = filter (\<lambda>d. \<not> hasLeaveRecordForDay (toISODate d) old)
                              (leaveDays app)"
  define added where "added = map (\<lambda>d. leaveRecord (toISODate d) tn) days"
  note ib = findIndex_Some_D[OF assms(1)]
  note jb = findIndex_Some_D[OF assms(2)]
  have h: "handleUpdateLeaveStatus aid Approved comment st
         = st\<lparr>leaveApplications := (leaveApplications st)[i :=
                (leaveApplications st ! i)\<lparr>leave_status := Approved, teacherComment := comment\<rparr>],
              students := (students st)[j := (students st ! j)\<lparr>attendance := old @ added\<rparr>]\<rparr>"
    unfolding leave_synthesis[OF assms(1,2)] synthesizeLeave_days
    by (simp add: old_def added_def days_def tn_def app_def)
  have mem: "d \<in> set (leaveDays app) \<longleftrightarrow> inRange d" for d
    by (simp add: leaveDays_set inRange_def)
  have days_set: "set days = {d. inRange d \<and> \<not> hasLeaveRecordForDay (toISODate d) old}"
    by (auto simp: days_def mem)
  have days_distinct: "distinct days"
    using leaveDays_distinct(1)[of app] by (simp add: days_def)
  have inj: "inj_on toISODate (set days)"
  proof -
    have "distinct (map toISODate days)"
      using leaveDays_distinct(2)[of app] by (simp add: days_def distinct_map_filter)
    then show ?thesis by (simp add: distinct_map)
  qed
  have tn: "tn = (case firstTeacherName (users st) of
                    None \<Rightarrow> ''System'' | Some n \<Rightarrow> if n = [] then ''System'' else n)"
    unfolding tn_def by (rule teacherNameOrSystem_first)
  have p1: "leave_status (leaveApplications (handleUpdateLeaveStatus aid Approved comment st) ! i)
              = Approved"
    and p2: "teacherComment (leaveApplications (handleUpdateLeaveStatus aid Approved comment st) ! i)
              = comment"
    using ib by (simp_all add: h)
  have p3: "attendance (students (handleUpdateLeaveStatus aid Approved comment st) ! j)
              = old @ added"
    using jb by (simp add: h)
  have p4: "\<forall>r \<in> set added. \<exists>d. inRange d
                \<and> \<not> hasLeaveRecordForDay (toISODate d) old
                \<and> r = \<lparr>rec_date = toISODate d, rec_subject = ''On Approved Leave'',
                        rec_teacherName = tn, rec_timestamp = ''All Day'',
                        rec_status = Present\<rparr>
                \<and> newDateUTC (rec_date r) = Some d
                \<and> length (rec_date r) = (if 0 \<le> fst d \<and> fst d \<le> 9999 then 10 else 13)"
  proof
    fix r assume "r \<in> set added"
    then obtain d where d: "d \<in> set days" and r: "r = leaveRecord (toISODate d) tn"
      by (auto simp: added_def)
    have a: "inRange d \<and> \<not> hasLeaveRecordForDay (toISODate d) old"
      using d by (simp add: days_set)
    then have "d \<in> set (leaveDays app)" by (simp add: mem)
    then have b: "newDateUTC (rec_date r) = Some d
        \<and> length (rec_date r) = (if 0 \<le> fst d \<and> fst d \<le> 9999 then 10 else 13)"
      using leaveDays_reads_back[of d app] by (simp add: r leaveRecord_def)
    have c: "r = \<lparr>rec_date = toISODate d, rec_subject = ''On Approved Leave'',
                        rec_teacherName = tn, rec_timestamp = ''All Day'',
                        rec_status = Present\<rparr>"
      by (simp add: r leaveRecord_def)
    from a b c show "\<exists>d. inRange d
                \<and> \<not> hasLeaveRecordForDay (toISODate d) old
                \<and> r = \<lparr>rec_date = toISODate d, rec_subject = ''On Approved Leave'',
                        rec_teacherName = tn, rec_timestamp = ''All Day'',
                        rec_status = Present\<rparr>
                \<and> newDateUTC (rec_date r) = Some d
                \<and> length (rec_date r) = (if 0 \<le> fst d \<and> fst d \<le> 9999 then 10 else 13)"
      by blast
  qed
  have p5: "\<forall>d. inRange d \<and> \<not> hasLeaveRecordForDay (toISODate d) old
                \<longrightarrow> length (filter (\<lambda>r. rec_date r = toISODate d) added) = 1"
  proof (intro allI impI)
    fix d assume "inRange d \<and> \<not> hasLeaveRecordForDay (toISODate d) old"
    then have din: "d \<in> set days" by (simp add: days_set)
    have "filter (\<lambda>r. rec_date r = toISODate d) added
            = map (\<lambda>d. leaveRecord (toISODate d) tn)
                (filter (\<lambda>x. toISODate x = toISODate d) days)"
      by (simp add: added_def filter_map comp_def leaveRecord_def)
    also have "filter (\<lambda>x. toISODate x = toISODate d) days = [d]"
      using days_distinct din inj by (rule filter_eq_singleton)
    finally show "length (filter (\<lambda>r. rec_date r = toISODate d) added) = 1" by simp
  qed
  have p6: "length added = card {d. inRange d \<and> \<not> hasLeaveRecordForDay (toISODate d) old}"
    using distinct_card[OF days_distinct] by (simp add: added_def days_set)
  from p1 p2 p3 p4 p5 p6 show ?thesis unfolding old_def tn inRange_def app_def by blast
qed

theorem leave_approval_synthesis_witness:
  "attendance (students (handleUpdateLeaveStatus ''leave-1'' Approved (Some ''ok'')
      (ex_leave_state [ex_studentUser, ex_teacherUser]
         [ex_student [ex_record ''2024-01-08'' ''Maths'' Absent]]
         [ex_leave ''user-1'' ''2024-01-10'' ''2024-01-12''])) ! 0)
   = [ex_record ''2024-01-08'' ''Maths'' Absent,
      \<lparr>rec_date = ''2024-01-10'', rec_subject = ''On Approved Leave'',
       rec_teacherName = ''Mr Rao'', rec_timestamp = ''All Day'', rec_status = Present\<rparr>,
      \<lparr>rec_date = ''2024-01-11'', rec_subject = ''On Approved Leave'',
       rec_teacherName = ''Mr Rao'', rec_timestamp = ''All Day'', rec_status = Present\<rparr>,
      \<lparr>rec_date = ''2024-01-12'', rec_subject = ''On Approved Leave'',
       rec_teacherName = ''Mr Rao'', rec_timestamp = ''All Day'', rec_status = Present\<rparr>]
   \<and> leave_status (leaveApplications (handleUpdateLeaveStatus ''leave-1'' Approved (Some ''ok'')
      (ex_leave_state [ex_studentUser, ex_teacherUser]
         [ex_student [ex_record ''2024-01-08'' ''Maths'' Absent]]
         [ex_leave ''user-1'' ''2024-01-10'' ''2024-01-12''])) ! 0) = Approved
   \<and> leave_status (leaveApplications (handleUpdateLeaveStatus ''leave-1'' Approved (Some ''ok'')
      (ex_leave_state [ex_studentUser, ex_teacherUser]
         [ex_student [ex_record ''2024-01-08'' ''Maths'' Absent]]
         [ex_leave ''user-1'' ''next week'' ''2024-01-12''])) ! 0) = Approved"
proof -
  let ?st = "ex_leave_state [ex_studentUser, ex_teacherUser]
         [ex_student [ex_record ''2024-01-08'' ''Maths'' Absent]]
         [ex_leave ''user-1'' ''2024-01-10'' ''2024-01-12'']"
  let ?st' = "ex_leave_state [ex_studentUser, ex_teacherUser]
         [ex_student [ex_record ''2024-01-08'' ''Maths'' Absent]]
         [ex_leave ''user-1'' ''next week'' ''2024-01-12'']"
  have a: "findIndex (\<lambda>app. leave_id app = ''leave-1'') (leaveApplications ?st) = Some 0"
    by (simp add: ex_leave_state_def ex_leave_def)
  have b: "findIndex (\<lambda>s. student_id s = leave_studentId (leaveApplications ?st ! 0))
             (students ?st) = Some 0"
    by (simp add: ex_leave_state_def ex_leave_def ex_student_def)
  have a': "findIndex (\<lambda>app. leave_id app = ''leave-1'') (leaveApplications ?st') = Some 0"
    by (simp add: ex_leave_state_def ex_leave_def)
  have b': "findIndex (\<lambda>s. student_id s = leave_studentId (leaveApplications ?st' ! 0))
             (students ?st') = Some 0"
    by (simp add: ex_leave_state_def ex_leave_def ex_student_def)
  have att: "attendance (students (handleUpdateLeaveStatus ''leave-1'' Approved (Some ''ok'') ?st) ! 0)
   = [ex_record ''2024-01-08'' ''Maths'' Absent,
      \<lparr>rec_date = ''2024-01-10'', rec_subject = ''On Approved Leave'',
       rec_teacherName = ''Mr Rao'', rec_timestamp = ''All Day'', rec_status = Present\<rparr>,
      \<lparr>rec_date = ''2024-01-11'', rec_subject = ''On Approved Leave'',
       rec_teacherName = ''Mr Rao'', rec_timestamp = ''All Day'', rec_status = Present\<rparr>,
      \<lparr>rec_date = ''2024-01-12'', rec_subject = ''On Approved Leave'',
       rec_teacherName = ''Mr Rao'', rec_timestamp = ''All Day'', rec_status = Present\<rparr>]"
    by code_simp
  from leave_approval_synthesis[OF a b, of "Some ''ok''"]
    leave_approval_synthesis[OF a' b', of "Some ''ok''"] att
  show ?thesis by simp
qed

text \<open>
  The claim as stated fails in two places. When the first Teacher-role user has the
  empty name, the appended records carry the teacher name System, not that user's
  name. When the leave lies in the year 10000, the date of the appended record has
  thirteen characters and is not of the form YYYY-MM-DD.
\<close>

theorem leave_record_counterexample:
  "firstTeacherName [ex_teacherUser\<lparr>user_name := []\<rparr>] = Some []
   \<and> map rec_teacherName (attendance (students (handleUpdateLeaveStatus ''leave-1'' Approved None
       (ex_leave_state [ex_teacherUser\<lparr>user_name := []\<rparr>]
          [ex_student []]
          [ex_leave ''user-1'' ''2024-01-10'' ''2024-01-12''])) ! 0))
     = [''System'', ''System'', ''System'']
   \<and> map rec_date (attendance (students (handleUpdateLeaveStatus ''leave-1'' Approved None
       (ex_leave_state [ex_teacherUser]
          [ex_student []]
          [ex_leave ''user-1'' ''+010000-01-01'' ''+010000-01-01''])) ! 0))
     = [''+010000-01-01'']
   \<and> length ''+010000-01-01'' = 13"
proof -
  have name: "firstTeacherName [ex_teacherUser\<lparr>user_name := []\<rparr>] = Some []
     \<and> map rec_teacherName (attendance (students (handleUpdateLeaveStatus ''leave-1'' Approved None
       (ex_leave_state [ex_teacherUser\<lparr>user_name := []\<rparr>]
          [ex_student []]
          [ex_leave ''user-1'' ''2024-01-10'' ''2024-01-12''])) ! 0))
     = [''System'', ''System'', ''System'']"
    by code_simp
  have year: "map rec_date (attendance (students (handleUpdateLeaveStatus ''leave-1'' Approved None
       (ex_leave_state [ex_teacherUser]
          [ex_student []]
          [ex_leave ''user-1'' ''+010000-01-01'' ''+010000-01-01''])) ! 0))
     = [''+010000-01-01'']"
    by (simp add: handleUpdateLeaveStatus_def ex_leave_state_def ex_student_def ex_leave_def
          ex_teacherUser_def synthesizeLeave_def newDateUTC_def parseYear_def parse_digits_def
          digit_val_def days_in_month_def is_leap_def leaveLoop.simps markLeaveDay_def
          hasLeaveRecordForDay_def some_def leaveRecord_def yearString_def padStart_def
          string_of_nat.simps digit_char_def teacherNameOrSystem_def Let_def)
  from name year show ?thesis by simp
qed

text \<open>
  Claim C3. At the login of a Student-role user whose student record is found, with an
  attendance array within the length limit of a JavaScript array: the low-attendance
  test of the source (on the double-precision percentage) is the test
  \<open>percentage < 75\<close> on the exact percentage (100 for no records, else 100 times
  Present over total); a low, unblocked student becomes blocked for Low Attendance; a
  low student blocked for a Behaviour Issue gets the reason Attendance and Behaviour; a
  low student blocked for Low Attendance or for Attendance and Behaviour, and every
  student who is not low, leave the whole state as it was.
\<close>

theorem access_block_evaluator:
  assumes "currentUser st = Some cu" "user_role cu = Student"
    and "findIndex (\<lambda>s. student_id s = user_id cu) (students st) = Some i"
    and "length (attendance (students st ! i)) < 2 ^ 32"
  shows "(isLowAttendance (attendance (students st ! i))
            \<longleftrightarrow> exactPercentage (attendance (students st ! i)) < 75)
       \<and> (exactPercentage (attendance (students st ! i)) < 75
            \<and> \<not> isAccessBlocked (students st ! i)
          \<longrightarrow> accessBlockEffect st = st\<lparr>students := (students st)[i :=
                 (students st ! i)\<lparr>isAccessBlocked := True, blockReason := Some LowAttendance\<rparr>]\<rparr>)
       \<and> (exactPercentage (attendance (students st ! i)) < 75
            \<and> isAccessBlocked (students st ! i)
            \<and> blockReason (students st ! i) = Some BehaviourIssue
          \<longrightarrow> accessBlockEffect st = st\<lparr>students := (students st)[i :=
                 (students st ! i)\<lparr>blockReason := Some AttendanceAndBehaviour\<rparr>]\<rparr>)
       \<and> (exactPercentage (attendance (students st ! i)) < 75
            \<and> isAccessBlocked (students st ! i)
            \<and> (blockReason (students st ! i) = Some LowAttendance
                 \<or> blockReason (students st ! i) = Some AttendanceAndBehaviour)
          \<longrightarrow> accessBlockEffect st = st)
       \<and> (\<not> exactPercentage (attendance (students st ! i)) < 75
          \<longrightarrow> accessBlockEffect st = st)"
proof -
  define s where "s = students st ! i"
  have low: "isLowAttendance (attendance s) \<longleftrightarrow> exactPercentage (attendance s) < 75"
    using assms(4) unfolding s_def by (rule isLowAttendance_exact)
  have same: "st\<lparr>students := (students st)[i := s]\<rparr> = st" by (simp add: s_def)
  have closed: "accessBlockEffect st =
      st\<lparr>students := (students st)[i := (if isLowAttendance (attendance s)
                                           then snd (blockUpdate s) else s)]\<rparr>"
    unfolding s_def using assms(1-3) by (rule accessBlockEffect_closed)
  have c1: "exactPercentage (attendance s) < 75 \<and> \<not> isAccessBlocked s
      \<longrightarrow> accessBlockEffect st = st\<lparr>students := (students st)[i :=
             s\<lparr>isAccessBlocked := True, blockReason := Some LowAttendance\<rparr>]\<rparr>"
    using low closed by (simp add: blockUpdate_def)
  have c2: "exactPercentage (attendance s) < 75 \<and> isAccessBlocked s
        \<and> blockReason s = Some BehaviourIssue
      \<longrightarrow> accessBlockEffect st = st\<lparr>students := (students st)[i :=
             s\<lparr>blockReason := Some AttendanceAndBehaviour\<rparr>]\<rparr>"
    using low closed by (simp add: blockUpdate_def)
  have c3: "exactPercentage (attendance s) < 75 \<and> isAccessBlocked s
        \<and> (blockReason s = Some LowAttendance \<or> blockReason s = Some AttendanceAndBehaviour)
      \<longrightarrow> accessBlockEffect st = st"
    using low closed same by (auto simp add: blockUpdate_def)
  have c4: "\<not> exactPercentage (attendance s) < 75 \<longrightarrow> accessBlockEffect st = st"
    using low closed same by simp
  from low c1 c2 c3 c4 show ?thesis unfolding s_def by blast
qed

theorem access_block_evaluator_witness:
  "accessBlockEffect
     (ex_state [ex_student [ex_record ''2024-01-08'' ''Maths'' Absent,
                            ex_record ''2024-01-09'' ''Maths'' Present,
                            ex_record ''2024-01-10'' ''Maths'' Late]])
   = ex_state [(ex_student [ex_record ''2024-01-08'' ''Maths'' Absent,
                            ex_record ''2024-01-09'' ''Maths'' Present,
                            ex_record ''2024-01-10'' ''Maths'' Late])
                \<lparr>isAccessBlocked := True, blockReason := Some LowAttendance\<rparr>]"
  using access_block_evaluator
    [of "ex_state [ex_student [ex_record ''2024-01-08'' ''Maths'' Absent,
                            ex_record ''2024-01-09'' ''Maths'' Present,
                            ex_record ''2024-01-10'' ''Maths'' Late]]" ex_studentUser 0]
  by (simp add: ex_state_def ex_student_def ex_studentUser_def ex_record_def
        exactPercentage_def presentCount_def)

text \<open>
  Claim C4. The evaluator is idempotent: running it a second time on the state it
  produced changes nothing. The block state it leaves (blocked flag and reason) is a
  function of the attendance sequence and the prior block state alone: two logins that
  agree on these three agree on the result.
\<close>

theorem access_block_idempotent:
  "accessBlockEffect (accessBlockEffect st) = accessBlockEffect st
   \<and> (currentUser st = Some cu \<and> user_role cu = Student
        \<and> findIndex (\<lambda>s. student_id s = user_id cu) (students st) = Some i
        \<and> currentUser st' = Some cu' \<and> user_role cu' = Student
        \<and> findIndex (\<lambda>s. student_id s = user_id cu') (students st') = Some i'
        \<and> attendance (students st ! i) = attendance (students st' ! i')
        \<and> isAccessBlocked (students st ! i) = isAccessBlocked (students st' ! i')
        \<and> blockReason (students st ! i) = blockReason (students st' ! i')
      \<longrightarrow> isAccessBlocked (students (accessBlockEffect st) ! i)
            = isAccessBlocked (students (accessBlockEffect st') ! i')
          \<and> blockReason (students (accessBlockEffect st) ! i)
            = blockReason (students (accessBlockEffect st') ! i'))"
proof (intro conjI impI)
  show "accessBlockEffect (accessBlockEffect st) = accessBlockEffect st"
    by (rule accessBlockEffect_idem_aux)
next
  assume h: "currentUser st = Some cu \<and> user_role cu = Student
        \<and> findIndex (\<lambda>s. student_id s = user_id cu) (students st) = Some i
        \<and> currentUser st' = Some cu' \<and> user_role cu' = Student
        \<and> findIndex (\<lambda>s. student_id s = user_id cu') (students st') = Some i'
        \<and> attendance (students st ! i) = attendance (students st' ! i')
        \<and> isAccessBlocked (students st ! i) = isAccessBlocked (students st' ! i')
        \<and> blockReason (students st ! i) = blockReason (students st' ! i')"
  then have i: "i < length (students st)" and i': "i' < length (students st')"
    using findIndex_Some_D by blast+
  from h have c: "accessBlockEffect st = st\<lparr>students := (students st)[i :=
                 (if isLowAttendance (attendance (students st ! i))
                  then snd (blockUpdate (students st ! i)) else students st ! i)]\<rparr>"
    by (intro accessBlockEffect_closed) auto
  from h have c': "accessBlockEffect st' = st'\<lparr>students := (students st')[i' :=
                 (if isLowAttendance (attendance (students st' ! i'))
                  then snd (blockUpdate (students st' ! i')) else students st' ! i')]\<rparr>"
    by (intro accessBlockEffect_closed) auto
  show "isAccessBlocked (students (accessBlockEffect st) ! i)
          = isAccessBlocked (students (accessBlockEffect st') ! i')"
    using h i i' by (simp add: c c' blockUpdate_def)
  show "blockReason (students (accessBlockEffect st) ! i)
          = blockReason (students (accessBlockEffect st') ! i')"
    using h i i' by (simp add: c c' blockUpdate_def)
qed

theorem access_block_idempotent_witness:
  "accessBlockEffect (accessBlockEffect
     (ex_state [ex_student [ex_record ''2024-01-08'' ''Maths'' Absent]]))
   = accessBlockEffect (ex_state [ex_student [ex_record ''2024-01-08'' ''Maths'' Absent]])
   \<and> isAccessBlocked (students (accessBlockEffect
        (ex_state [ex_student [ex_record ''2024-01-08'' ''Maths'' Absent]])) ! 0)
     = isAccessBlocked (students (accessBlockEffect
        (ex_state [ex_student [ex_record ''2024-01-08'' ''Maths'' Absent],
                   ex_student []])) ! 0)"
  using access_block_idempotent
    [of "ex_state [ex_student [ex_record ''2024-01-08'' ''Maths'' Absent]]" ex_studentUser 0
        "ex_state [ex_student [ex_record ''2024-01-08'' ''Maths'' Absent], ex_student []]"
        ex_studentUser 0]
  by (simp add: ex_state_def ex_student_def ex_studentUser_def)

text \<open>
  Claim C5 at a 40-question exam with 23 right answers. The exact percentage is 57.5,
  which rounds to 58. The source divides first and multiplies by 100 afterwards, in
  double precision: the product is just below 57.5 and \<open>Math.round\<close> gives 57.
\<close>

theorem exam_score_rounding:
  "length (map ex_question [0..<40]) = 40
   \<and> countCorrect (map ex_question [0..<40]) (ex_answers 23 40) = 23
   \<and> Math_round (100 * 23 / 40) = 58
   \<and> js_mul (js_div 23 40) 100 = 8092405580431359 / 140737488355328
   \<and> js_mul (js_div 23 40) 100 < 115 / 2
   \<and> map score (examSubmissions
        (handleSubmitExam 1 (ex_submission_input 23 40) (ex_submit_state 40))) = [57]"
  by code_simp

text \<open>
  Claim C6. Approving a leave application never lowers a student's attendance
  percentage, since every synthesised record is Present. This holds for the exact
  percentage (100 for no records, else 100 times Present over total) and for the
  double-precision percentage the login check computes.
\<close>

theorem leave_approval_monotone:
  assumes "j < length (students st)"
  shows "exactPercentage (attendance (students st ! j))
           \<le> exactPercentage (attendance
                (students (handleUpdateLeaveStatus aid Approved comment st) ! j))
       \<and> attendancePercentage (attendance (students st ! j))
           \<le> attendancePercentage (attendance
                (students (handleUpdateLeaveStatus aid Approved comment st) ! j))"
proof -
  obtain added where a: "students (handleUpdateLeaveStatus aid Approved comment st) ! j
            = (students st ! j)\<lparr>attendance := attendance (students st ! j) @ added\<rparr>"
    and p: "\<forall>r \<in> set added. rec_status r = Present"
    using leave_student_shape[OF assms, of aid Approved comment] by blast
  show ?thesis
    using exactPercentage_append_present[OF p] attendancePercentage_append_present[OF p]
    by (simp add: a)
qed

theorem leave_approval_monotone_witness:
  "exactPercentage [ex_record ''2024-01-08'' ''Maths'' Absent] = 0
   \<and> 0 \<le> exactPercentage (attendance (students (handleUpdateLeaveStatus ''leave-1'' Approved None
      (ex_leave_state [ex_teacherUser]
         [ex_student [ex_record ''2024-01-08'' ''Maths'' Absent]]
         [ex_leave ''user-1'' ''2024-01-10'' ''2024-01-12''])) ! 0))"
  using leave_approval_monotone[of 0
      "ex_leave_state [ex_teacherUser]
         [ex_student [ex_record ''2024-01-08'' ''Maths'' Absent]]
         [ex_leave ''user-1'' ''2024-01-10'' ''2024-01-12'']" "''leave-1''" None]
  by (simp add: ex_leave_state_def ex_student_def exactPercentage_def presentCount_def
        ex_record_def)

text \<open>
  Claim C7, as the code has it. An unknown \<open>applicationId\<close> leaves the whole state
  unchanged. When the application exists and its \<open>studentId\<close> matches no student, the
  students and every other collection are unchanged and no attendance is synthesised,
  but the application itself still receives the new status and the comment: the
  handler stores the updated application before it looks the student up.
\<close>

theorem leave_unknown_ids:
  "(findIndex (\<lambda>app. leave_id app = aid) (leaveApplications st) = None
      \<longrightarrow> handleUpdateLeaveStatus aid status comment st = st)
   \<and> (findIndex (\<lambda>app. leave_id app = aid) (leaveApplications st) = Some i
        \<and> findIndex (\<lambda>s. student_id s = leave_studentId (leaveApplications st ! i)) (students st)
            = None
      \<longrightarrow> handleUpdateLeaveStatus aid status comment st
          = st\<lparr>leaveApplications := (leaveApplications st)[i :=
                 (leaveApplications st ! i)\<lparr>leave_status := status, teacherComment := comment\<rparr>]\<rparr>)"
  using leave_unknown_application[of aid st status comment]
    leave_no_synthesis[of aid st i status comment]
  by blast

theorem leave_unknown_ids_witness:
  "handleUpdateLeaveStatus ''leave-7'' Approved (Some ''ok'')
     (ex_leave_state [ex_teacherUser] [] [ex_leave ''user-9'' ''2024-01-10'' ''2024-01-12''])
   = ex_leave_state [ex_teacherUser] [] [ex_leave ''user-9'' ''2024-01-10'' ''2024-01-12'']
   \<and> handleUpdateLeaveStatus ''leave-1'' Approved (Some ''ok'')
     (ex_leave_state [ex_teacherUser] [] [ex_leave ''user-9'' ''2024-01-10'' ''2024-01-12''])
   = ex_leave_state [ex_teacherUser] []
       [(ex_leave ''user-9'' ''2024-01-10'' ''2024-01-12'')
          \<lparr>leave_status := Approved, teacherComment := Some ''ok''\<rparr>]"
  using leave_unknown_ids[of "''leave-7''"
      "ex_leave_state [ex_teacherUser] [] [ex_leave ''user-9'' ''2024-01-10'' ''2024-01-12'']"
      Approved "Some ''ok''" 0]
    leave_unknown_ids[of "''leave-1''"
      "ex_leave_state [ex_teacherUser] [] [ex_leave ''user-9'' ''2024-01-10'' ''2024-01-12'']"
      Approved "Some ''ok''" 0]
  by (simp add: ex_leave_state_def ex_leave_def)

text \<open>
  The claim as stated fails: with no student at all, approving an existing application
  changes its status from Pending to Approved and stores the comment.
\<close>

theorem leave_unknown_student_counterexample:
  "students (ex_leave_state [ex_teacherUser] [] [ex_leave ''user-9'' ''2024-01-10'' ''2024-01-12''])
     = []
   \<and> leave_status (leaveApplications
        (ex_leave_state [ex_teacherUser] [] [ex_leave ''user-9'' ''2024-01-10'' ''2024-01-12'']) ! 0)
     = Pending
   \<and> leave_status (leaveApplications (handleUpdateLeaveStatus ''leave-1'' Approved (Some ''ok'')
        (ex_leave_state [ex_teacherUser] [] [ex_leave ''user-9'' ''2024-01-10'' ''2024-01-12''])) ! 0)
     = Approved
   \<and> teacherComment (leaveApplications (handleUpdateLeaveStatus ''leave-1'' Approved (Some ''ok'')
        (ex_leave_state [ex_teacherUser] [] [ex_leave ''user-9'' ''2024-01-10'' ''2024-01-12''])) ! 0)
     = Some ''ok''
   \<and> handleUpdateLeaveStatus ''leave-1'' Approved (Some ''ok'')
        (ex_leave_state [ex_teacherUser] [] [ex_leave ''user-9'' ''2024-01-10'' ''2024-01-12''])
     \<noteq> ex_leave_state [ex_teacherUser] [] [ex_leave ''user-9'' ''2024-01-10'' ''2024-01-12'']"
  by (simp add: handleUpdateLeaveStatus_def ex_leave_state_def ex_leave_def)

text \<open>
  Claim C8. \<open>deleteExam\<close> removes the exam with the given id and exactly the submissions
  whose \<open>examId\<close> is that id: no remaining exam or submission refers to the id, the
  remaining ones are those of the other ids in their original order, the number of
  submissions drops by the number that referred to the id, and nothing else changes.
\<close>

theorem delete_exam_cascade:
  "(\<forall>e \<in> set (exams (handleDeleteExam eid st)). exam_id e \<noteq> eid)
   \<and> exams (handleDeleteExam eid st) = filter (\<lambda>e. exam_id e \<noteq> eid) (exams st)
   \<and> (\<forall>s \<in> set (examSubmissions (handleDeleteExam eid st)). examId s \<noteq> eid)
   \<and> examSubmissions (handleDeleteExam eid st)
       = filter (\<lambda>s. examId s \<noteq> eid) (examSubmissions st)
   \<and> length (examSubmissions (handleDeleteExam eid st))
       + length (filter (\<lambda>s. examId s = eid) (examSubmissions st))
       = length (examSubmissions st)
   \<and> users (handleDeleteExam eid st) = users st
   \<and> students (handleDeleteExam eid st) = students st
   \<and> leaveApplications (handleDeleteExam eid st) = leaveApplications st
   \<and> currentUser (handleDeleteExam eid st) = currentUser st"
proof -
  have "length (filter (\<lambda>s. examId s \<noteq> eid) (examSubmissions st))
          + length (filter (\<lambda>s. examId s = eid) (examSubmissions st))
        = length (examSubmissions st)"
    using sum_length_filter_compl[of "\<lambda>s. examId s = eid" "examSubmissions st"] by simp
  then show ?thesis by (simp add: handleDeleteExam_def)
qed

theorem delete_exam_cascade_witness:
  "map submission_id (examSubmissions (handleDeleteExam ''e1'' ex_exam_state)) = [''s2'']
   \<and> map exam_id (exams (handleDeleteExam ''e1'' ex_exam_state)) = [''e2'']
   \<and> length (examSubmissions ex_exam_state) = 3"
  using delete_exam_cascade[of "''e1''" ex_exam_state]
  by (simp add: ex_exam_state_def ex_submission_def ex_exam_def)

text \<open>
  Claim C9. A Parent signup whose \<open>childEmail\<close> is absent or is the email of no
  Student-role user fails: an error message is set, and no user is created (users,
  students, current user and the other collections are unchanged).
\<close>

theorem parent_signup_unresolved_child:
  assumes "details_role details = Parent"
    and "\<forall>u \<in> set (users st).
           user_role u = Student \<longrightarrow> details_childEmail details \<noteq> Some (user_email u)"
  shows "authError (handleSignup now rnd template details st) \<noteq> None
       \<and> users (handleSignup now rnd template details st) = users st
       \<and> students (handleSignup now rnd template details st) = students st
       \<and> currentUser (handleSignup now rnd template details st) = currentUser st
       \<and> leaveApplications (handleSignup now rnd template details st) = leaveApplications st
       \<and> exams (handleSignup now rnd template details st) = exams st
       \<and> examSubmissions (handleSignup now rnd template details st) = examSubmissions st"
proof (cases "List.find (\<lambda>u. user_email u = details_email details) (users st)")
  case (Some u)
  then show ?thesis by (simp add: handleSignup_def)
next
  case None
  show ?thesis
  proof (cases "details_childEmail details")
    case nce: None
    with None assms(1) show ?thesis by (simp add: handleSignup_def Let_def)
  next
    case (Some ce)
    have "List.find (\<lambda>u. user_email u = ce \<and> user_role u = Student) (users st) = None"
      using assms(2) Some by (auto simp: find_None_iff)
    with None Some assms(1) show ?thesis by (simp add: handleSignup_def Let_def)
  qed
qed

theorem parent_signup_unresolved_child_witness:
  "authError (handleSignup 5 7 (ex_student [])
               (ex_parentSignup (Some ''teacher@school.com'')) (ex_state []))
     = Some ''No student account found with the email: teacher@school.com. Please verify the email.''
   \<and> users (handleSignup 5 7 (ex_student [])
               (ex_parentSignup (Some ''teacher@school.com'')) (ex_state []))
     = [ex_studentUser, ex_teacherUser]"
  using parent_signup_unresolved_child
    [of "ex_parentSignup (Some ''teacher@school.com'')" "ex_state []" 5 7 "ex_student []"]
  by (simp add: handleSignup_def ex_parentSignup_def ex_state_def ex_studentUser_def
        ex_teacherUser_def)

text \<open>
  Claim C10. Whatever the call of \<open>updateLeaveStatus\<close>: users, exams, exam submissions
  and the current user are unchanged; the students list keeps its length; every
  student keeps all fields but attendance, and the new attendance is the old one with
  records appended after it (none for the students left alone); and a student that
  changed at all is the one the lookup of the application's \<open>studentId\<close> finds.
\<close>

theorem leave_status_frame:
  assumes "j < length (students st)"
  shows "users (handleUpdateLeaveStatus aid status comment st) = users st
       \<and> exams (handleUpdateLeaveStatus aid status comment st) = exams st
       \<and> examSubmissions (handleUpdateLeaveStatus aid status comment st) = examSubmissions st
       \<and> currentUser (handleUpdateLeaveStatus aid status comment st) = currentUser st
       \<and> length (students (handleUpdateLeaveStatus aid status comment st)) = length (students st)
       \<and> (\<exists>added. students (handleUpdateLeaveStatus aid status comment st) ! j
             = (students st ! j)\<lparr>attendance := attendance (students st ! j) @ added\<rparr>)
       \<and> (students (handleUpdateLeaveStatus aid status comment st) ! j \<noteq> students st ! j
          \<longrightarrow> (\<exists>i. findIndex (\<lambda>app. leave_id app = aid) (leaveApplications st) = Some i
                 \<and> findIndex (\<lambda>s. student_id s = leave_studentId (leaveApplications st ! i))
                      (students st) = Some j))"
proof -
  have len: "length (students (handleUpdateLeaveStatus aid status comment st))
             = length (students st)"
    by (cases rule: leave_students_cases[of aid status comment st]) simp_all
  have shape: "\<exists>added. students (handleUpdateLeaveStatus aid status comment st) ! j
             = (students st ! j)\<lparr>attendance := attendance (students st ! j) @ added\<rparr>"
    using leave_student_shape[OF assms, of aid status comment] by blast
  have who: "students (handleUpdateLeaveStatus aid status comment st) ! j \<noteq> students st ! j
          \<longrightarrow> (\<exists>i. findIndex (\<lambda>app. leave_id app = aid) (leaveApplications st) = Some i
                 \<and> findIndex (\<lambda>s. student_id s = leave_studentId (leaveApplications st ! i))
                      (students st) = Some j)"
  proof (cases rule: leave_students_cases[of aid status comment st])
    case same
    then show ?thesis by simp
  next
    case (synth i k)
    show ?thesis
    proof (cases "j = k")
      case True
      with synth(1,2) show ?thesis by blast
    next
      case False
      then show ?thesis using synth(4) by simp
    qed
  qed
  from len shape who show ?thesis by (simp add: leave_frame_other)
qed

theorem leave_status_frame_witness:
  "users (handleUpdateLeaveStatus ''leave-1'' Approved None
      (ex_leave_state [ex_teacherUser]
         [ex_student [ex_record ''2024-01-08'' ''Maths'' Absent]]
         [ex_leave ''user-1'' ''2024-01-10'' ''2024-01-12''])) = [ex_teacherUser]
   \<and> take 1 (attendance (students (handleUpdateLeaveStatus ''leave-1'' Approved None
      (ex_leave_state [ex_teacherUser]
         [ex_student [ex_record ''2024-01-08'' ''Maths'' Absent]]
         [ex_leave ''user-1'' ''2024-01-10'' ''2024-01-12''])) ! 0))
     = [ex_record ''2024-01-08'' ''Maths'' Absent]"
  using leave_status_frame[of 0
      "ex_leave_state [ex_teacherUser]
         [ex_student [ex_record ''2024-01-08'' ''Maths'' Absent]]
         [ex_leave ''user-1'' ''2024-01-10'' ''2024-01-12'']" "''leave-1''" Approved None]
  by (auto simp: ex_leave_state_def ex_student_def)

end
